theory Spec2Isabelle
  imports Main
begin

section \<open>Text of numbers\<close>

text \<open>
  A template literal such as \<open>`Gemini API error: ${response.status}`\<close> writes a number in
  decimal.
\<close>

definition digitChar :: "nat \<Rightarrow> char" where
  "digitChar d = ''0123456789'' ! d"

fun showNat :: "nat \<Rightarrow> string" where
  "showNat n = (if n < 10 then [digitChar n] else showNat (n div 10) @ [digitChar (n mod 10)])"

declare showNat.simps [simp del]

section \<open>Concept merger: reconciliation of the proposed merge groups\<close>

text \<open>
  The reconciliation loop of the merge function (audit-merge-concepts, version 2) is
  embedded here. A string is a list of code units below 256, the characters of Latin-1.
  On these \<open>toLowerCase\<close> is the JavaScript method: it lowers the letters A-Z and the
  capital letters U+00C0 to U+00DE (all of that range but the multiplication sign U+00D7)
  by adding 32 to the code unit, and keeps every other character. An array field that the
  code reads defensively (\<open>c.d1Ids || []\<close>, \<open>c.d1Ids?.length || 0\<close>,
  \<open>parsed.merges || []\<close>) is an option: \<open>None\<close> is the absent field.
\<close>

record UnifiedConcept =
  label :: string
  description :: string
  d1Ids :: "string list option"
  d2Ids :: "string list option"
  elementLabels :: "string list option"

record MergeLogEntry =
  "from" :: "string list"
  to :: string

record MergeInstruction =
  sourceConcepts :: "string list option"
  mergedLabel :: string
  mergedDescription :: string

record ParsedMerges =
  merges :: "MergeInstruction list option"

definition upperLetters :: string where
  "upperLetters =
     ''ABCDEFGHIJKLMNOPQRSTUVWXYZ'' @
       [CHR 0xC0, CHR 0xC1, CHR 0xC2, CHR 0xC3, CHR 0xC4, CHR 0xC5, CHR 0xC6, CHR 0xC7,
        CHR 0xC8, CHR 0xC9, CHR 0xCA, CHR 0xCB, CHR 0xCC, CHR 0xCD, CHR 0xCE, CHR 0xCF,
        CHR 0xD0, CHR 0xD1, CHR 0xD2, CHR 0xD3, CHR 0xD4, CHR 0xD5, CHR 0xD6, CHR 0xD8,
        CHR 0xD9, CHR 0xDA, CHR 0xDB, CHR 0xDC, CHR 0xDD, CHR 0xDE]"

definition lowerLetters :: string where
  "lowerLetters =
     ''abcdefghijklmnopqrstuvwxyz'' @
       [CHR 0xE0, CHR 0xE1, CHR 0xE2, CHR 0xE3, CHR 0xE4, CHR 0xE5, CHR 0xE6, CHR 0xE7,
        CHR 0xE8, CHR 0xE9, CHR 0xEA, CHR 0xEB, CHR 0xEC, CHR 0xED, CHR 0xEE, CHR 0xEF,
        CHR 0xF0, CHR 0xF1, CHR 0xF2, CHR 0xF3, CHR 0xF4, CHR 0xF5, CHR 0xF6, CHR 0xF8,
        CHR 0xF9, CHR 0xFA, CHR 0xFB, CHR 0xFC, CHR 0xFD, CHR 0xFE]"

definition lowerChar :: "char \<Rightarrow> char" where
  "lowerChar c = (case map_of (zip upperLetters lowerLetters) c of None \<Rightarrow> c | Some d \<Rightarrow> d)"

definition toLowerCase :: "string \<Rightarrow> string" where
  "toLowerCase s = map lowerChar s"

text \<open>\<open>xs || []\<close> on an array that may be absent.\<close>

definition orEmpty :: "'a list option \<Rightarrow> 'a list" where
  "orEmpty xs = (case xs of None \<Rightarrow> [] | Some ys \<Rightarrow> ys)"

text \<open>
  \<open>[...new Set(xs)]\<close>: the elements of \<open>xs\<close> in the order of their first occurrence.
\<close>

definition dedupe :: "'a list \<Rightarrow> 'a list" where
  "dedupe xs = rev (remdups (rev xs))"

text \<open>\<open>concepts.reduce((sum, c) => sum + (c.d1Ids?.length || 0), 0)\<close> and its D2 twin.\<close>

definition d1Count :: "UnifiedConcept list \<Rightarrow> nat" where
  "d1Count cs = foldl (\<lambda>s c. s + length (orEmpty (d1Ids c))) 0 cs"

definition d2Count :: "UnifiedConcept list \<Rightarrow> nat" where
  "d2Count cs = foldl (\<lambda>s c. s + length (orEmpty (d2Ids c))) 0 cs"

text \<open>
  The lookup map from lower-cased label to concept: a later concept with the same key
  replaces an earlier one, as \<open>Map.set\<close> does.
\<close>

definition conceptByLabel :: "UnifiedConcept list \<Rightarrow> (string \<rightharpoonup> UnifiedConcept)" where
  "conceptByLabel cs = foldl (\<lambda>m c. m(toLowerCase (label c) \<mapsto> c)) Map.empty cs"

text \<open>
  The inner loop over the labels of one merge group. The state is
  \<open>(validSources, validSourceLabels, mergedLabels)\<close>.
\<close>

fun resolveLabels ::
  "(string \<rightharpoonup> UnifiedConcept) \<Rightarrow> string list \<Rightarrow>
   UnifiedConcept list \<times> string list \<times> string set \<Rightarrow>
   UnifiedConcept list \<times> string list \<times> string set" where
  "resolveLabels cbl [] st = st"
| "resolveLabels cbl (l # ls) (validSources, validSourceLabels, mergedLabels) =
     (let key = toLowerCase l in
      if key \<in> mergedLabels then resolveLabels cbl ls (validSources, validSourceLabels, mergedLabels)
      else (case cbl key of
              Some found \<Rightarrow>
                resolveLabels cbl ls
                  (validSources @ [found], validSourceLabels @ [label found], insert key mergedLabels)
            | None \<Rightarrow> resolveLabels cbl ls (validSources, validSourceLabels, mergedLabels)))"

definition mergedConcept :: "MergeInstruction \<Rightarrow> UnifiedConcept list \<Rightarrow> UnifiedConcept" where
  "mergedConcept m validSources =
     \<lparr> label = mergedLabel m,
       description = mergedDescription m,
       d1Ids = Some (dedupe (concat (map (\<lambda>c. orEmpty (d1Ids c)) validSources))),
       d2Ids = Some (dedupe (concat (map (\<lambda>c. orEmpty (d2Ids c)) validSources))),
       elementLabels = Some (dedupe (concat (map (\<lambda>c. orEmpty (elementLabels c)) validSources))) \<rparr>"

text \<open>
  One iteration of the outer loop. The state is \<open>(mergedLabels, outputConcepts, mergeLog)\<close>.
\<close>

definition mergeStep ::
  "(string \<rightharpoonup> UnifiedConcept) \<Rightarrow> MergeInstruction \<Rightarrow>
   string set \<times> UnifiedConcept list \<times> MergeLogEntry list \<Rightarrow>
   string set \<times> UnifiedConcept list \<times> MergeLogEntry list" where
  "mergeStep cbl m st =
     (case st of (mergedLabels, outputConcepts, mergeLog) \<Rightarrow>
        (case resolveLabels cbl (orEmpty (sourceConcepts m)) ([], [], mergedLabels) of
           (validSources, validSourceLabels, mergedLabels') \<Rightarrow>
             if length validSources \<ge> 2 then
               (mergedLabels',
                outputConcepts @ [mergedConcept m validSources],
                mergeLog @ [\<lparr> from = validSourceLabels, to = mergedLabel m \<rparr>])
             else if length validSources = 1 then
               (mergedLabels' - {toLowerCase (label (hd validSources))}, outputConcepts, mergeLog)
             else (mergedLabels', outputConcepts, mergeLog)))"

fun processMerges ::
  "(string \<rightharpoonup> UnifiedConcept) \<Rightarrow> MergeInstruction list \<Rightarrow>
   string set \<times> UnifiedConcept list \<times> MergeLogEntry list \<Rightarrow>
   string set \<times> UnifiedConcept list \<times> MergeLogEntry list" where
  "processMerges cbl [] st = st"
| "processMerges cbl (m # ms) st = processMerges cbl ms (mergeStep cbl m st)"

text \<open>The pass-through loop that follows: every concept whose key is not marked.\<close>

definition passThrough :: "UnifiedConcept list \<Rightarrow> string set \<Rightarrow> UnifiedConcept list" where
  "passThrough cs mergedLabels = filter (\<lambda>c. toLowerCase (label c) \<notin> mergedLabels) cs"

text \<open>
  The whole reconciliation, from the parsed reply to \<open>(outputConcepts, mergeLog)\<close>.
\<close>

definition reconcile ::
  "UnifiedConcept list \<Rightarrow> ParsedMerges \<Rightarrow> UnifiedConcept list \<times> MergeLogEntry list" where
  "reconcile concepts parsed =
     (case processMerges (conceptByLabel concepts) (orEmpty (merges parsed)) ({}, [], []) of
        (mergedLabels, outputConcepts, mergeLog) \<Rightarrow>
          (outputConcepts @ passThrough concepts mergedLabels, mergeLog))"

text \<open>The key under which a concept is looked up and marked.\<close>

definition conceptKey :: "UnifiedConcept \<Rightarrow> string" where
  "conceptKey c = toLowerCase (label c)"

text \<open>
  What the lookup map built from \<open>cs\<close> guarantees: an entry under \<open>k\<close> is a concept of
  \<open>cs\<close> whose key is \<open>k\<close>.
\<close>

definition keyedBy :: "(string \<rightharpoonup> UnifiedConcept) \<Rightarrow> UnifiedConcept list \<Rightarrow> bool" where
  "keyedBy cbl cs = (\<forall>k c. cbl k = Some c \<longrightarrow> c \<in> set cs \<and> conceptKey c = k)"

text \<open>
  Id lists at different positions of a list share no element: the disjointness of the
  id sets of any two concepts of one generation.
\<close>

fun pairwiseDisjoint :: "'a list list \<Rightarrow> bool" where
  "pairwiseDisjoint [] = True"
| "pairwiseDisjoint (xs # xss) = ((\<forall>ys \<in> set xss. set xs \<inter> set ys = {}) \<and> pairwiseDisjoint xss)"

text \<open>\<open>holds x xs\<close> is 1 when \<open>x\<close> occurs in \<open>xs\<close> and 0 otherwise.\<close>

definition holds :: "'a \<Rightarrow> 'a list \<Rightarrow> nat" where
  "holds x xs = (if x \<in> set xs then 1 else 0)"

subsection \<open>Example inputs\<close>

text \<open>
  The scenario of the design document: D1 concepts Auth (elements A, B) and Logging (C),
  D2 concepts AuthImpl (X) and Misc (Y), and a reply that merges Auth with AuthImpl.
\<close>

definition scenarioConcepts :: "UnifiedConcept list" where
  "scenarioConcepts =
     [\<lparr> label = ''Auth'', description = ''d1'', d1Ids = Some [''A'', ''B''], d2Ids = Some [],
        elementLabels = None \<rparr>,
      \<lparr> label = ''Logging'', description = ''d1'', d1Ids = Some [''C''], d2Ids = Some [],
        elementLabels = None \<rparr>,
      \<lparr> label = ''AuthImpl'', description = ''d2'', d1Ids = Some [], d2Ids = Some [''X''],
        elementLabels = None \<rparr>,
      \<lparr> label = ''Misc'', description = ''d2'', d1Ids = Some [], d2Ids = Some [''Y''],
        elementLabels = None \<rparr>]"

definition authGroup :: MergeInstruction where
  "authGroup = \<lparr> sourceConcepts = Some [''Auth'', ''AuthImpl''], mergedLabel = ''Authentication'',
                 mergedDescription = ''merged'' \<rparr>"

text \<open>A later group that lists Auth again, together with Logging.\<close>

definition lateGroup :: MergeInstruction where
  "lateGroup = \<lparr> sourceConcepts = Some [''auth'', ''Logging''], mergedLabel = ''Audit trail'',
                 mergedDescription = ''merged'' \<rparr>"

text \<open>
  Two concepts that both list element \<open>e1\<close> (the extractor asks only that every element
  is in at least one concept), and a reply that merges them.
\<close>

definition overlapConcepts :: "UnifiedConcept list" where
  "overlapConcepts =
     [\<lparr> label = ''Auth'', description = ''a'', d1Ids = Some [''e1''], d2Ids = Some [],
        elementLabels = None \<rparr>,
      \<lparr> label = ''Login'', description = ''b'', d1Ids = Some [''e1''], d2Ids = Some [''x1''],
        elementLabels = None \<rparr>]"

definition overlapGroup :: MergeInstruction where
  "overlapGroup = \<lparr> sourceConcepts = Some [''Auth'', ''Login''], mergedLabel = ''Authentication'',
                    mergedDescription = ''c'' \<rparr>"

text \<open>
  The two datasets are extracted apart, and here both have a concept labelled
  Authentication; the reply merges Authentication with Login.
\<close>

definition sameLabelConcepts :: "UnifiedConcept list" where
  "sameLabelConcepts =
     [\<lparr> label = ''Authentication'', description = ''d1'', d1Ids = Some [''A'', ''B''],
        d2Ids = Some [], elementLabels = None \<rparr>,
      \<lparr> label = ''Authentication'', description = ''d2'', d1Ids = Some [],
        d2Ids = Some [''X''], elementLabels = None \<rparr>,
      \<lparr> label = ''Login'', description = ''d2'', d1Ids = Some [], d2Ids = Some [''Y''],
        elementLabels = None \<rparr>]"

definition sameLabelGroup :: MergeInstruction where
  "sameLabelGroup = \<lparr> sourceConcepts = Some [''Authentication'', ''Login''],
                      mergedLabel = ''Sign-in'', mergedDescription = ''merged'' \<rparr>"

text \<open>
  On the scenario, a group that lists Logging with a name that is no concept, and a later
  group that lists Logging with Misc.
\<close>

definition ghostGroup :: MergeInstruction where
  "ghostGroup = \<lparr> sourceConcepts = Some [''Logging'', ''Ghost''], mergedLabel = ''Observability'',
                  mergedDescription = ''merged'' \<rparr>"

definition miscGroup :: MergeInstruction where
  "miscGroup = \<lparr> sourceConcepts = Some [''Logging'', ''Misc''], mergedLabel = ''Operations'',
                 mergedDescription = ''merged'' \<rparr>"

section \<open>Parsing the model reply\<close>

text \<open>
  Both the extractor and the merger hand the reply text to \<open>JSON.parse\<close> and, when that
  throws, to \<open>JSON.parse\<close> again on the text between the first \<open>{\<close> and the last \<open>}\<close>.
  \<open>JSON.parse\<close> is a built-in of the runtime; it is modelled here by a recogniser of the
  JSON grammar of ECMA-404 that reads the text character by character with a stack of the
  arrays and objects that are open. A reply is a list of 8-bit characters; the characters
  of a parsed string are code units (natural numbers), so that a \<open>\u\<close> escape has a value.
  A number is kept as its text; where the code tests a number, the test is decided from
  the text. The members of an object are kept as the runtime enumerates them.
\<close>

datatype json =
    JNull
  | JBool bool
  | JNumber string
  | JString "nat list"
  | JArray "json list"
  | JObject "(nat list \<times> json) list"

text \<open>An open array with its elements so far, or an open object with its members so far
  and the key whose value is being read.\<close>

datatype frame =
    FArray "json list"
  | FObject "(nat list \<times> json) list" "nat list option"

datatype numState = NMinus | NZero | NInt | NDot | NFrac | NExp | NExpSign | NExpDigits

datatype mode =
    ExpectValue
  | ExpectValueOrClose
  | ExpectKeyOrClose
  | ExpectKey
  | ExpectColon
  | AfterValue
  | InString "nat list" bool
  | InEscape "nat list" bool
  | InUnicode "nat list" "nat list" bool
  | InNumber numState string
  | InLiteral string json
  | Done json

definition isWhitespace :: "char \<Rightarrow> bool" where
  "isWhitespace c = (c \<in> set [CHR '' '', CHR 0x09, CHR 0x0A, CHR 0x0D])"

definition isDigit :: "char \<Rightarrow> bool" where
  "isDigit c = (c \<in> set ''0123456789'')"

definition isDigit19 :: "char \<Rightarrow> bool" where
  "isDigit19 c = (c \<in> set ''123456789'')"

definition hexValue :: "char \<Rightarrow> nat option" where
  "hexValue c =
     map_of (zip ''0123456789abcdefABCDEF''
                 [0, 1, 2, 3, 4, 5, 6, 7, 8, 9, 10, 11, 12, 13, 14, 15, 10, 11, 12, 13, 14, 15]) c"

definition escapeValue :: "char \<Rightarrow> nat option" where
  "escapeValue c =
     map_of [(CHR 0x22, 0x22), (CHR 0x5C, 0x5C), (CHR ''/'', 0x2F), (CHR ''b'', 8),
             (CHR ''f'', 12), (CHR ''n'', 10), (CHR ''r'', 13), (CHR ''t'', 9)] c"

text \<open>
  \<open>JSON.parse\<close> creates each member of an object as a data property named by the key. A
  key that the object has already keeps its place and takes the new value, so that of
  several members with one name the last value stays. The own properties of an object are
  enumerated with the array indices first (the canonical decimal texts of the integers
  from 0 to 2^32 - 2), in ascending order, then the other names in the order of their
  creation.
\<close>

definition arrayIndex :: "nat list \<Rightarrow> nat option" where
  "arrayIndex k =
     (let n = foldl (\<lambda>n u. 10 * n + (u - 48)) 0 k
      in if k \<noteq> [] \<and> list_all (\<lambda>u. 48 \<le> u \<and> u \<le> 57) k \<and> (k = [48] \<or> hd k \<noteq> 48)
            \<and> n \<le> 4294967294
         then Some n else None)"

definition precedes :: "nat list \<Rightarrow> nat list \<Rightarrow> bool" where
  "precedes k k' =
     (case arrayIndex k of
        None \<Rightarrow> False
      | Some i \<Rightarrow> (case arrayIndex k' of None \<Rightarrow> True | Some j \<Rightarrow> i < j))"

fun setMember :: "nat list \<Rightarrow> json \<Rightarrow> (nat list \<times> json) list \<Rightarrow> (nat list \<times> json) list" where
  "setMember k v [] = [(k, v)]"
| "setMember k v ((k', v') # ps) =
     (if k = k' then (k, v) # ps
      else if precedes k k' then (k, v) # (k', v') # ps
      else (k', v') # setMember k v ps)"

text \<open>A finished value goes to the innermost open container, or ends the text.\<close>

fun complete :: "json \<Rightarrow> frame list \<Rightarrow> (mode \<times> frame list) option" where
  "complete v [] = Some (Done v, [])"
| "complete v (FArray es # st) = Some (AfterValue, FArray (es @ [v]) # st)"
| "complete v (FObject ps (Some k) # st) = Some (AfterValue, FObject (setMember k v ps) None # st)"
| "complete v (FObject ps None # st) = None"

text \<open>The character after a finished value: white space, a comma or a closing bracket.\<close>

fun afterValue :: "mode \<times> frame list \<Rightarrow> char \<Rightarrow> (mode \<times> frame list) option" where
  "afterValue (Done v, st) c = (if isWhitespace c then Some (Done v, st) else None)"
| "afterValue (AfterValue, FArray es # st) c =
     (if isWhitespace c then Some (AfterValue, FArray es # st)
      else if c = CHR '','' then Some (ExpectValue, FArray es # st)
      else if c = CHR '']'' then complete (JArray es) st
      else None)"
| "afterValue (AfterValue, FObject ps None # st) c =
     (if isWhitespace c then Some (AfterValue, FObject ps None # st)
      else if c = CHR '','' then Some (ExpectKey, FObject ps None # st)
      else if c = CHR ''}'' then complete (JObject ps) st
      else None)"
| "afterValue _ c = None"

text \<open>The first character of a value.\<close>

definition startValue :: "frame list \<Rightarrow> char \<Rightarrow> (mode \<times> frame list) option" where
  "startValue st c =
     (if c = CHR ''{'' then Some (ExpectKeyOrClose, FObject [] None # st)
      else if c = CHR ''['' then Some (ExpectValueOrClose, FArray [] # st)
      else if c = CHR 0x22 then Some (InString [] False, st)
      else if c = CHR ''-'' then Some (InNumber NMinus [c], st)
      else if c = CHR ''0'' then Some (InNumber NZero [c], st)
      else if isDigit19 c then Some (InNumber NInt [c], st)
      else if c = CHR ''t'' then Some (InLiteral ''rue'' (JBool True), st)
      else if c = CHR ''f'' then Some (InLiteral ''alse'' (JBool False), st)
      else if c = CHR ''n'' then Some (InLiteral ''ull'' JNull, st)
      else None)"

text \<open>
  One character inside a number: the next state of the number, \<open>None\<close> when the character
  cannot continue it.
\<close>

fun numberNext :: "numState \<Rightarrow> char \<Rightarrow> numState option" where
  "numberNext NMinus c =
     (if c = CHR ''0'' then Some NZero else if isDigit19 c then Some NInt else None)"
| "numberNext NZero c =
     (if c = CHR ''.'' then Some NDot else if c = CHR ''e'' \<or> c = CHR ''E'' then Some NExp else None)"
| "numberNext NInt c =
     (if isDigit c then Some NInt else if c = CHR ''.'' then Some NDot
      else if c = CHR ''e'' \<or> c = CHR ''E'' then Some NExp else None)"
| "numberNext NDot c = (if isDigit c then Some NFrac else None)"
| "numberNext NFrac c =
     (if isDigit c then Some NFrac else if c = CHR ''e'' \<or> c = CHR ''E'' then Some NExp else None)"
| "numberNext NExp c =
     (if c = CHR ''+'' \<or> c = CHR ''-'' then Some NExpSign
      else if isDigit c then Some NExpDigits else None)"
| "numberNext NExpSign c = (if isDigit c then Some NExpDigits else None)"
| "numberNext NExpDigits c = (if isDigit c then Some NExpDigits else None)"

text \<open>The states in which the text read so far is a complete number.\<close>

fun numberComplete :: "numState \<Rightarrow> bool" where
  "numberComplete NZero = True"
| "numberComplete NInt = True"
| "numberComplete NFrac = True"
| "numberComplete NExpDigits = True"
| "numberComplete _ = False"

fun step :: "mode \<times> frame list \<Rightarrow> char \<Rightarrow> (mode \<times> frame list) option" where
  "step (ExpectValue, st) c = (if isWhitespace c then Some (ExpectValue, st) else startValue st c)"
| "step (ExpectValueOrClose, st) c =
     (if isWhitespace c then Some (ExpectValueOrClose, st)
      else if c = CHR '']'' then
        (case st of FArray es # st' \<Rightarrow> complete (JArray es) st' | _ \<Rightarrow> None)
      else startValue st c)"
| "step (ExpectKeyOrClose, st) c =
     (if isWhitespace c then Some (ExpectKeyOrClose, st)
      else if c = CHR ''}'' then
        (case st of FObject ps None # st' \<Rightarrow> complete (JObject ps) st' | _ \<Rightarrow> None)
      else if c = CHR 0x22 then Some (InString [] True, st)
      else None)"
| "step (ExpectKey, st) c =
     (if isWhitespace c then Some (ExpectKey, st)
      else if c = CHR 0x22 then Some (InString [] True, st)
      else None)"
| "step (ExpectColon, st) c =
     (if isWhitespace c then Some (ExpectColon, st)
      else if c = CHR '':'' then Some (ExpectValue, st)
      else None)"
| "step (AfterValue, st) c = afterValue (AfterValue, st) c"
| "step (Done v, st) c = afterValue (Done v, st) c"
| "step (InString acc isKey, st) c =
     (if c = CHR 0x22 then
        (if isKey then
           (case st of FObject ps None # st' \<Rightarrow> Some (ExpectColon, FObject ps (Some acc) # st')
                     | _ \<Rightarrow> None)
         else complete (JString acc) st)
      else if c = CHR 0x5C then Some (InEscape acc isKey, st)
      else if (of_char c :: nat) < 0x20 then None
      else Some (InString (acc @ [of_char c]) isKey, st))"
| "step (InEscape acc isKey, st) c =
     (if c = CHR ''u'' then Some (InUnicode [] acc isKey, st)
      else (case escapeValue c of
              Some u \<Rightarrow> Some (InString (acc @ [u]) isKey, st)
            | None \<Rightarrow> None))"
| "step (InUnicode ds acc isKey, st) c =
     (case hexValue c of
        None \<Rightarrow> None
      | Some d \<Rightarrow>
          if length ds = 3 then
            Some (InString (acc @ [foldl (\<lambda>u x. 16 * u + x) 0 (ds @ [d])]) isKey, st)
          else Some (InUnicode (ds @ [d]) acc isKey, st))"
| "step (InNumber ns lexeme, st) c =
     (case numberNext ns c of
        Some ns' \<Rightarrow> Some (InNumber ns' (lexeme @ [c]), st)
      | None \<Rightarrow>
          if numberComplete ns then
            (case complete (JNumber lexeme) st of
               Some after \<Rightarrow> afterValue after c
             | None \<Rightarrow> None)
          else None)"
| "step (InLiteral rest v, st) c =
     (case rest of
        [] \<Rightarrow> None
      | r # rs \<Rightarrow>
          if c = r then (if rs = [] then complete v st else Some (InLiteral rs v, st))
          else None)"

fun runParser :: "mode \<times> frame list \<Rightarrow> string \<Rightarrow> (mode \<times> frame list) option" where
  "runParser s [] = Some s"
| "runParser s (c # cs) = (case step s c of None \<Rightarrow> None | Some s' \<Rightarrow> runParser s' cs)"

text \<open>At the end of the text a value must be complete and nothing may be open.\<close>

fun finish :: "mode \<times> frame list \<Rightarrow> json option" where
  "finish (Done v, []) = Some v"
| "finish (InNumber ns lexeme, []) = (if numberComplete ns then Some (JNumber lexeme) else None)"
| "finish _ = None"

text \<open>\<open>JSON.parse(text)\<close>: \<open>None\<close> is the SyntaxError.\<close>

definition JSON_parse :: "string \<Rightarrow> json option" where
  "JSON_parse text =
     (case runParser (ExpectValue, []) text of None \<Rightarrow> None | Some s \<Rightarrow> finish s)"

subsection \<open>Recovery between the braces\<close>

text \<open>\<open>s.indexOf(c)\<close> and \<open>s.lastIndexOf(c)\<close> for a one-character \<open>c\<close>: -1 when absent.\<close>

definition indexOf :: "string \<Rightarrow> char \<Rightarrow> int" where
  "indexOf s c = (if c \<in> set s then int (length (takeWhile (\<lambda>x. x \<noteq> c) s)) else - 1)"

definition lastIndexOf :: "string \<Rightarrow> char \<Rightarrow> int" where
  "lastIndexOf s c =
     (if c \<in> set s then int (length s) - 1 - int (length (takeWhile (\<lambda>x. x \<noteq> c) (rev s)))
      else - 1)"

text \<open>\<open>s.slice(a, b)\<close>: a negative index counts from the end, both are clamped to the text.\<close>

definition slice :: "string \<Rightarrow> int \<Rightarrow> int \<Rightarrow> string" where
  "slice s a b =
     (let n = int (length s);
          from = (if a < 0 then max (n + a) 0 else min a n);
          to = (if b < 0 then max (n + b) 0 else min b n)
      in drop (nat from) (take (nat to) s))"

datatype jsError = SyntaxError | TypeError | Error string

text \<open>
  The \<open>try { JSON.parse(rawText) } catch { ... }\<close> block, the same in both functions but for
  the message of the error thrown when there is no brace pair.
\<close>

definition parseWithRecovery :: "string \<Rightarrow> string \<Rightarrow> jsError + json" where
  "parseWithRecovery failMessage rawText =
     (case JSON_parse rawText of
        Some parsed \<Rightarrow> Inr parsed
      | None \<Rightarrow>
          (let firstBrace = indexOf rawText (CHR ''{'');
               lastBrace = lastIndexOf rawText (CHR ''}'')
           in if firstBrace \<noteq> - 1 \<and> lastBrace > firstBrace then
                (case JSON_parse (slice rawText firstBrace (lastBrace + 1)) of
                   Some parsed \<Rightarrow> Inr parsed
                 | None \<Rightarrow> Inl SyntaxError)
              else Inl (Error failMessage)))"

definition extractorParse :: "string \<Rightarrow> jsError + json" where
  "extractorParse = parseWithRecovery ''Failed to parse JSON from LLM response''"

definition mergerParse :: "string \<Rightarrow> jsError + json" where
  "mergerParse = parseWithRecovery ''Could not parse JSON from LLM response''"

section \<open>Concept extractor: from the reply of the model to the response\<close>

text \<open>
  The part of the extract function (audit-extract-concepts) that follows the call of the
  model. The reply of the model API is the outcome of \<open>fetch\<close>: a rejection, or a response
  with its \<open>ok\<close> flag, its status and its body. Of the body the code reads
  \<open>result.candidates?.[0]?.content?.parts?.[0]?.text\<close>, a text that may be absent. The two
  logging calls \<open>supabase.rpc(...)\<close> that precede the response resolve to a result object
  whatever happens and their results are not read; they are left out.
\<close>

datatype geminiBody = BodyNotJson | BodyNull | BodyText "string option"

record GeminiResponse =
  ok :: bool
  status :: nat
  body :: geminiBody

datatype fetchOutcome = FetchRejected jsError | Responded GeminiResponse

text \<open>
  The response of the function: \<open>{ success: true, concepts, ... }\<close>, or
  \<open>{ success: false, error: errMsg }\<close> with status 500.
\<close>

datatype extractResponse = ExtractSuccess json | ExtractFailure jsError

text \<open>\<open>text || "{}"\<close>: an absent or empty text is replaced.\<close>

definition rawTextOf :: "string option \<Rightarrow> string" where
  "rawTextOf t = (case t of None \<Rightarrow> ''{}'' | Some s \<Rightarrow> if s = [] then ''{}'' else s)"

text \<open>A property of an object: the value of the member with that name, if there is one.\<close>

definition objGet :: "(nat list \<times> json) list \<Rightarrow> string \<Rightarrow> json option" where
  "objGet members name = map_of members (map of_char name)"

text \<open>
  A number is falsy when it is zero as a double. The text of a JSON number is a sign, the
  digits \<open>m\<close> of its integer and fraction parts and a decimal exponent; \<open>e10\<close> is that
  exponent less the number of fraction digits, so that the number is \<open>m * 10^e10\<close> up to
  its sign. The runtime rounds it to the nearest double, ties to even: the least positive
  double is \<open>2^-1074\<close>, and what is at most half of it, \<open>2^-1075\<close>, is read as zero.
\<close>

definition digitValue :: "char \<Rightarrow> nat" where
  "digitValue c =
     (case map_of (zip ''0123456789'' [0, 1, 2, 3, 4, 5, 6, 7, 8, 9]) c of
        None \<Rightarrow> 0
      | Some d \<Rightarrow> d)"

definition decimalValue :: "string \<Rightarrow> nat" where
  "decimalValue ds = foldl (\<lambda>n c. 10 * n + digitValue c) 0 ds"

definition isExponentMark :: "char \<Rightarrow> bool" where
  "isExponentMark c = (c = CHR ''e'' \<or> c = CHR ''E'')"

definition exponentValue :: "string \<Rightarrow> int" where
  "exponentValue ds =
     (case ds of
        [] \<Rightarrow> 0
      | c # rest \<Rightarrow>
          if c = CHR ''-'' then - int (decimalValue rest)
          else if c = CHR ''+'' then int (decimalValue rest)
          else int (decimalValue ds))"

definition numberIsZero :: "string \<Rightarrow> bool" where
  "numberIsZero lexeme =
     (let unsigned = dropWhile (\<lambda>c. c = CHR ''-'') lexeme;
          mantissa = takeWhile (\<lambda>c. \<not> isExponentMark c) unsigned;
          intDigits = takeWhile (\<lambda>c. c \<noteq> CHR ''.'') mantissa;
          fracDigits = drop 1 (dropWhile (\<lambda>c. c \<noteq> CHR ''.'') mantissa);
          m = decimalValue (intDigits @ fracDigits);
          e10 = exponentValue (drop 1 (dropWhile (\<lambda>c. \<not> isExponentMark c) unsigned))
                  - int (length fracDigits)
      in m = 0 \<or> (e10 < 0 \<and> m * 2 ^ 1075 \<le> 10 ^ nat (- e10)))"

fun truthy :: "json \<Rightarrow> bool" where
  "truthy JNull = False"
| "truthy (JBool b) = b"
| "truthy (JNumber lexeme) = (\<not> numberIsZero lexeme)"
| "truthy (JString s) = (s \<noteq> [])"
| "truthy (JArray es) = True"
| "truthy (JObject members) = True"

text \<open>
  \<open>parsed.concepts || []\<close>: reading a property of \<open>null\<close> throws a TypeError; any other
  value that is not an object has no such property.
\<close>

fun conceptsOf :: "json \<Rightarrow> jsError + json" where
  "conceptsOf JNull = Inl TypeError"
| "conceptsOf (JObject members) =
     (case objGet members ''concepts'' of
        None \<Rightarrow> Inr (JArray [])
      | Some v \<Rightarrow> if truthy v then Inr v else Inr (JArray []))"
| "conceptsOf _ = Inr (JArray [])"

text \<open>
  A template literal turns the value of \<open>${...}\<close> into a string. Of a parsed value this
  throws a TypeError in one case: an object that has a member \<open>toString\<close> of its own, which
  hides the method of that name and is no function (the method \<open>valueOf\<close>, tried next,
  gives no primitive value either). An array is joined, each of its elements turned into
  a string in the same way.
\<close>

fun stringifiable :: "json \<Rightarrow> bool" where
  "stringifiable (JObject members) = (objGet members ''toString'' = None)"
| "stringifiable (JArray es) = list_all stringifiable es"
| "stringifiable _ = True"

text \<open>
  \<open>x.length\<close> of a parsed value that is neither \<open>null\<close> nor missing: a number for a
  string or an array, the member of that name for an object, \<open>undefined\<close> otherwise.
  Only the member of an object can be a value that does not turn into a string.
\<close>

fun lengthStringifiable :: "json \<Rightarrow> bool" where
  "lengthStringifiable (JObject members) =
     (case objGet members ''length'' of None \<Rightarrow> True | Some v \<Rightarrow> stringifiable v)"
| "lengthStringifiable _ = True"

text \<open>
  The callback of \<open>concepts.map(c => `- ${c.label}: ${c.elementIds.length} elements`)\<close>:
  it throws when \<open>c\<close> is \<open>null\<close>, when \<open>c.label\<close> does not turn into a string, when
  \<open>c.elementIds\<close> is missing or \<open>null\<close> (a \<open>c\<close> that is no object has no such property),
  and when \<open>c.elementIds.length\<close> does not turn into a string.
\<close>

fun describable :: "json \<Rightarrow> bool" where
  "describable (JObject members) =
     ((case objGet members ''label'' of None \<Rightarrow> True | Some l \<Rightarrow> stringifiable l)
      \<and> (case objGet members ''elementIds'' of
             None \<Rightarrow> False
           | Some JNull \<Rightarrow> False
           | Some ids \<Rightarrow> lengthStringifiable ids))"
| "describable _ = False"

text \<open>\<open>concepts.map(...)\<close> itself throws when \<open>concepts\<close> is not an array.\<close>

fun logConcepts :: "json \<Rightarrow> jsError + unit" where
  "logConcepts (JArray cs) = (if list_all describable cs then Inr () else Inl TypeError)"
| "logConcepts _ = Inl TypeError"

definition extractConcepts :: "fetchOutcome \<Rightarrow> extractResponse" where
  "extractConcepts outcome =
     (case outcome of
        FetchRejected e \<Rightarrow> ExtractFailure e
      | Responded response \<Rightarrow>
          if \<not> ok response then
            ExtractFailure (Error (''Gemini API error: '' @ showNat (status response)))
          else
            (case body response of
               BodyNotJson \<Rightarrow> ExtractFailure SyntaxError
             | BodyNull \<Rightarrow> ExtractFailure TypeError
             | BodyText t \<Rightarrow>
                 (case extractorParse (rawTextOf t) of
                    Inl e \<Rightarrow> ExtractFailure e
                  | Inr parsed \<Rightarrow>
                      (case conceptsOf parsed of
                         Inl e \<Rightarrow> ExtractFailure e
                       | Inr concepts \<Rightarrow>
                           (case logConcepts concepts of
                              Inl e \<Rightarrow> ExtractFailure e
                            | Inr _ \<Rightarrow> ExtractSuccess concepts)))))"

text \<open>
  The text has a \<open>{\<close> followed, somewhere after it, by a \<open>}\<close>.
\<close>

definition hasBracePair :: "string \<Rightarrow> bool" where
  "hasBracePair s = (CHR ''}'' \<in> set (dropWhile (\<lambda>x. x \<noteq> CHR ''{'') s))"

section \<open>Pipeline orchestrator: \<open>runPipeline\<close>\<close>

text \<open>
  The hook \<open>useAuditPipeline\<close> runs the stages of the pipeline in one \<open>try\<close> block. What
  it does is what it calls: the state setters of the hook, the remote procedures of the
  store, the edge functions it fetches and the error console. A run is modelled by the
  list of these calls in order, the history. Everything the run reads from outside (the
  result of a remote procedure, the response of a fetch, the abort flag) is given by an
  environment as a function of the history so far, so that any behaviour of the store and
  of the services over time is an environment. A \<open>throw\<close> inside the \<open>try\<close> block is the
  left injection with the message that the \<open>catch\<close> block computes from it.

  The session id and the token, the same in every call, are left out of the calls, and so
  are the calls of \<open>console.log\<close>. Records carry the fields of the TypeScript
  interfaces with a prefix where two interfaces share a name.
\<close>

datatype PipelinePhase =
    Idle | CreatingNodes | ExtractingD1 | ExtractingD2 | MergingConcepts | BuildingGraph
  | BuildingTesseract | GeneratingVenn | Completed | PhaseError

record PipelineProgress =
  phase :: PipelinePhase
  message :: string
  progress :: nat
  d1ConceptCount :: "nat option"
  d2ConceptCount :: "nat option"
  mergedCount :: "nat option"
  tesseractCurrent :: "nat option"
  tesseractTotal :: "nat option"

record Concept =
  c_label :: string
  c_description :: string
  c_elementIds :: "string list"

record MergedConcept =
  mc_mergedLabel :: string
  mc_mergedDescription :: string
  mc_d1ConceptLabels :: "string list"
  mc_d2ConceptLabels :: "string list"
  mc_d1Ids :: "string list"
  mc_d2Ids :: "string list"

record Element =
  el_id :: string
  el_label :: string
  el_content :: string
  el_category :: "string option"

record PipelineInput =
  sessionId :: string
  projectId :: string
  shareToken :: string
  d1Elements :: "Element list"
  d2Elements :: "Element list"

subsection \<open>Calls and their results\<close>

datatype metadata = MetaCategory string | MetaMerged nat nat | MetaGap | MetaOrphan

record UpsertArgs =
  p_label :: string
  p_description :: string
  p_node_type :: string
  p_source_dataset :: string
  p_source_element_ids :: "string list"
  p_color :: string
  p_size :: nat
  p_metadata :: metadata

record EdgeArgs =
  p_source_node_id :: string
  p_target_node_id :: string
  p_edge_type :: string
  p_edge_label :: string

datatype rpc =
    UpsertNode UpsertArgs
  | UpdateSession string "string option"
  | GetNodes
  | InsertEdge EdgeArgs

text \<open>A row of the node table, as far as the code reads it.\<close>

record NodeRow =
  node_id :: string
  node_type :: string
  source_element_ids :: "string list option"

datatype rpcData = NoData | NodeData NodeRow | NodesData "NodeRow list"

text \<open>The object \<open>{ data, error }\<close> that \<open>supabase.rpc\<close> resolves to.\<close>

record RpcResult =
  rpc_data :: rpcData
  rpc_error :: "string option"

text \<open>The concept as the merge function receives it, and as it returns an unmerged one.\<close>

record ConceptForMerge =
  fm_label :: string
  fm_description :: string
  fm_ids :: "string list"

record UnmergedConcept =
  u_label :: string
  u_description :: string
  u_d1Ids :: "string list option"
  u_d2Ids :: "string list option"

datatype request =
    ExtractRequest string "Element list"
  | MergeRequest "ConceptForMerge list" "ConceptForMerge list"
  | TesseractRequest "MergedConcept list" "Element list" "Element list"
  | VennRequest "MergedConcept list" "Concept list" "Concept list" "json list" nat nat

text \<open>
  A response: \<open>resp_json\<close> is what \<open>response.json()\<close> resolves to, or the message of
  the error it rejects with.
\<close>

record 'b HttpResponse =
  resp_ok :: bool
  resp_status :: nat
  resp_json :: "string + 'b"

datatype 'b fetchResult = Rejected string | Resolved "'b HttpResponse"

record ExtractResult =
  er_success :: bool
  er_error :: "string option"
  er_concepts :: "Concept list option"

record MergeResult =
  mr_success :: bool
  mr_error :: "string option"
  mr_mergedConcepts :: "MergedConcept list option"
  mr_unmergedD1Concepts :: "UnmergedConcept list option"
  mr_unmergedD2Concepts :: "UnmergedConcept list option"

datatype event =
    SetIsRunning bool
  | SetError "string option"
  | SetProgress PipelineProgress
  | ConsoleError string
  | Rpc rpc RpcResult
  | Fetch request

text \<open>
  The environment. \<open>fetchExtract\<close> is the outcome of \<open>Promise.all\<close> over the two
  extraction requests: the message of the first rejection, or both responses.
  \<open>fetchTesseract\<close> resolves to \<open>tesseractResult?.cells\<close>.
\<close>

record Env =
  rpcReply :: "event list \<Rightarrow> rpc \<Rightarrow> RpcResult"
  fetchExtract :: "event list \<Rightarrow> string + (ExtractResult HttpResponse \<times> ExtractResult HttpResponse)"
  fetchMerge :: "event list \<Rightarrow> MergeResult fetchResult"
  fetchTesseract :: "event list \<Rightarrow> (json list option) fetchResult"
  fetchVenn :: "event list \<Rightarrow> unit fetchResult"
  abortRequested :: "event list \<Rightarrow> bool"

text \<open>The variables declared before the \<open>try\<close> block, and \<open>tesseractCells\<close>.\<close>

record Vars =
  d1Concepts :: "Concept list"
  d2Concepts :: "Concept list"
  mergedConcepts :: "MergedConcept list"
  unmergedD1Concepts :: "Concept list"
  unmergedD2Concepts :: "Concept list"
  tesseractCells :: "json list"

definition initialVars :: Vars where
  "initialVars = \<lparr> d1Concepts = [], d2Concepts = [], mergedConcepts = [],
                   unmergedD1Concepts = [], unmergedD2Concepts = [], tesseractCells = [] \<rparr>"

definition mkProgress :: "PipelinePhase \<Rightarrow> string \<Rightarrow> nat \<Rightarrow> PipelineProgress" where
  "mkProgress ph msg p =
     \<lparr> phase = ph, message = msg, progress = p, d1ConceptCount = None, d2ConceptCount = None,
       mergedCount = None, tesseractCurrent = None, tesseractTotal = None \<rparr>"

text \<open>\<open>await supabase.rpc(...)\<close>: the call and its result enter the history.\<close>

definition rpcCall :: "Env \<Rightarrow> rpc \<Rightarrow> event list \<Rightarrow> RpcResult \<times> event list" where
  "rpcCall env call h = (let r = rpcReply env h call in (r, h @ [Rpc call r]))"

text \<open>\<open>if (abortRef.current) throw new Error("Aborted")\<close>.\<close>

definition checkAbort :: "Env \<Rightarrow> 'a \<Rightarrow> event list \<Rightarrow> (string + 'a) \<times> event list" where
  "checkAbort env v h = (if abortRequested env h then (Inl ''Aborted'', h) else (Inr v, h))"

text \<open>\<open>`${x}`\<close> for a text that may be \<open>undefined\<close>.\<close>

definition textOrUndefined :: "string option \<Rightarrow> string" where
  "textOrUndefined t = (case t of None \<Rightarrow> ''undefined'' | Some s \<Rightarrow> s)"

subsection \<open>Phase 0: the element nodes\<close>

definition categoryOrUnknown :: "Element \<Rightarrow> string" where
  "categoryOrUnknown e =
     (case el_category e of None \<Rightarrow> ''unknown'' | Some c \<Rightarrow> if c = [] then ''unknown'' else c)"

definition d1NodeArgs :: "Element \<Rightarrow> UpsertArgs" where
  "d1NodeArgs e =
     \<lparr> p_label = el_label e, p_description = take 500 (el_content e),
       p_node_type = ''d1_element'', p_source_dataset = ''dataset1'',
       p_source_element_ids = [el_id e], p_color = ''#3b82f6'', p_size = 15,
       p_metadata = MetaCategory (categoryOrUnknown e) \<rparr>"

definition d2NodeArgs :: "Element \<Rightarrow> UpsertArgs" where
  "d2NodeArgs e =
     \<lparr> p_label = el_label e, p_description = take 500 (el_content e),
       p_node_type = ''d2_element'', p_source_dataset = ''dataset2'',
       p_source_element_ids = [el_id e], p_color = ''#22c55e'', p_size = 15,
       p_metadata = MetaCategory (categoryOrUnknown e) \<rparr>"

text \<open>
  The loop \<open>for (const element of d1Elements)\<close> and its D2 twin: an error result is
  written to the console and the loop goes on.
\<close>

fun createElementNodes ::
  "Env \<Rightarrow> (Element \<Rightarrow> UpsertArgs) \<Rightarrow> string \<Rightarrow> Element list \<Rightarrow> event list \<Rightarrow> event list" where
  "createElementNodes env mkArgs tag [] h = h"
| "createElementNodes env mkArgs tag (element # rest) h =
     (case rpcCall env (UpsertNode (mkArgs element)) h of
        (r, h1) \<Rightarrow>
          createElementNodes env mkArgs tag rest
            (if rpc_error r \<noteq> None then h1 @ [ConsoleError tag] else h1))"

definition phase0 :: "Env \<Rightarrow> PipelineInput \<Rightarrow> Vars \<Rightarrow> event list \<Rightarrow> (string + Vars) \<times> event list" where
  "phase0 env inp v h =
     (let h1 = h @ [SetProgress (mkProgress CreatingNodes
                     (''Creating '' @ showNat (length (d1Elements inp)) @ '' D1 and ''
                        @ showNat (length (d2Elements inp)) @ '' D2 nodes...'') 5)];
          h2 = createElementNodes env d1NodeArgs ''[Pipeline] Error creating D1 node:''
                 (d1Elements inp) h1;
          h3 = createElementNodes env d2NodeArgs ''[Pipeline] Error creating D2 node:''
                 (d2Elements inp) h2;
          h4 = snd (rpcCall env (UpdateSession ''running'' (Some ''extracting_concepts'')) h3)
      in checkAbort env v h4)"

subsection \<open>Phase 1: the two extractions\<close>

text \<open>
  What the code does with one extraction response: \<open>if (!response.ok) throw\<close>, then
  \<open>await response.json()\<close>, then \<open>if (!result.success) throw\<close>, then
  \<open>result.concepts || []\<close>. The second component is what it writes to the console.
\<close>

definition readExtraction ::
  "string \<Rightarrow> ExtractResult HttpResponse \<Rightarrow> (string + Concept list) \<times> event list" where
  "readExtraction side response =
     (if \<not> resp_ok response then
        (Inl (side @ '' concept extraction failed: '' @ showNat (resp_status response)),
         [ConsoleError (''[Pipeline] '' @ side @ '' extraction failed:'')])
      else
        (case resp_json response of
           Inl msg \<Rightarrow> (Inl msg, [])
         | Inr result \<Rightarrow>
             if \<not> er_success result then
               (Inl (side @ '' extraction error: '' @ textOrUndefined (er_error result)), [])
             else (Inr (orEmpty (er_concepts result)), [])))"

text \<open>The history when both extraction requests are in flight.\<close>

definition extractRequests :: "PipelineInput \<Rightarrow> event list \<Rightarrow> event list" where
  "extractRequests inp h =
     h @ [SetProgress (mkProgress ExtractingD1
            (''Extracting concepts from '' @ showNat (length (d1Elements inp))
               @ '' D1 and '' @ showNat (length (d2Elements inp)) @ '' D2 elements...'') 15),
          Fetch (ExtractRequest ''d1'' (d1Elements inp)),
          Fetch (ExtractRequest ''d2'' (d2Elements inp))]"

definition phase1 :: "Env \<Rightarrow> PipelineInput \<Rightarrow> Vars \<Rightarrow> event list \<Rightarrow> (string + Vars) \<times> event list" where
  "phase1 env inp v h =
     (let h2 = extractRequests inp h
      in case fetchExtract env h2 of
           Inl msg \<Rightarrow> (Inl msg, h2)
         | Inr (d1Response, d2Response) \<Rightarrow>
             (case readExtraction ''D1'' d1Response of
                (Inl msg, logged) \<Rightarrow> (Inl msg, h2 @ logged)
              | (Inr d1C, logged) \<Rightarrow>
                  (case readExtraction ''D2'' d2Response of
                     (Inl msg, logged') \<Rightarrow> (Inl msg, h2 @ logged @ logged')
                   | (Inr d2C, logged') \<Rightarrow>
                       checkAbort env (v\<lparr> d1Concepts := d1C, d2Concepts := d2C \<rparr>)
                         (h2 @ logged @ logged' @
                          [SetProgress ((mkProgress MergingConcepts
                             (''Merging '' @ showNat (length d1C) @ '' D1 and ''
                                @ showNat (length d2C) @ '' D2 concepts...'') 35)
                             \<lparr> d1ConceptCount := Some (length d1C),
                               d2ConceptCount := Some (length d2C) \<rparr>)]))))"

subsection \<open>Phase 2: the merge\<close>

definition forMerge :: "Concept \<Rightarrow> ConceptForMerge" where
  "forMerge c = \<lparr> fm_label = c_label c, fm_description = c_description c, fm_ids = c_elementIds c \<rparr>"

definition fromUnmergedD1 :: "UnmergedConcept \<Rightarrow> Concept" where
  "fromUnmergedD1 c =
     \<lparr> c_label = u_label c, c_description = u_description c, c_elementIds = orEmpty (u_d1Ids c) \<rparr>"

definition fromUnmergedD2 :: "UnmergedConcept \<Rightarrow> Concept" where
  "fromUnmergedD2 c =
     \<lparr> c_label = u_label c, c_description = u_description c, c_elementIds = orEmpty (u_d2Ids c) \<rparr>"

text \<open>The history when the merge request is in flight.\<close>

definition mergeRequest :: "Vars \<Rightarrow> event list \<Rightarrow> event list" where
  "mergeRequest v h =
     h @ [Fetch (MergeRequest (map forMerge (d1Concepts v)) (map forMerge (d2Concepts v)))]"

definition phase2 :: "Env \<Rightarrow> PipelineInput \<Rightarrow> Vars \<Rightarrow> event list \<Rightarrow> (string + Vars) \<times> event list" where
  "phase2 env inp v h =
     (let h1 = mergeRequest v h
      in case fetchMerge env h1 of
           Rejected msg \<Rightarrow> (Inl msg, h1)
         | Resolved mergeResponse \<Rightarrow>
             if \<not> resp_ok mergeResponse then
               (Inl (''Merge concepts failed: '' @ showNat (resp_status mergeResponse)),
                h1 @ [ConsoleError ''[Pipeline] Merge failed:''])
             else
               (case resp_json mergeResponse of
                  Inl msg \<Rightarrow> (Inl msg, h1)
                | Inr mergeResult \<Rightarrow>
                    if \<not> mr_success mergeResult then
                      (Inl (''Merge error: '' @ textOrUndefined (mr_error mergeResult)), h1)
                    else
                      (let merged = orEmpty (mr_mergedConcepts mergeResult);
                           v' = v\<lparr> mergedConcepts := merged,
                                  unmergedD1Concepts :=
                                    map fromUnmergedD1 (orEmpty (mr_unmergedD1Concepts mergeResult)),
                                  unmergedD2Concepts :=
                                    map fromUnmergedD2 (orEmpty (mr_unmergedD2Concepts mergeResult)) \<rparr>
                       in checkAbort env v'
                            (h1 @ [SetProgress ((mkProgress BuildingGraph
                               (''Creating '' @ showNat (length merged)
                                  @ '' merged concept nodes and edges...'') 50)
                               \<lparr> mergedCount := Some (length merged) \<rparr>)]))))"

subsection \<open>Phase 2.5: the concept nodes and the edges\<close>

text \<open>\<open>conceptNode?.id\<close>, when it is truthy.\<close>

definition conceptNodeId :: "RpcResult \<Rightarrow> string option" where
  "conceptNodeId r =
     (case rpc_data r of
        NodeData row \<Rightarrow> if node_id row \<noteq> [] then Some (node_id row) else None
      | _ \<Rightarrow> None)"

text \<open>
  \<open>allNodes?.find((n) => n.source_element_ids?.includes(id))\<close>, where \<open>allNodes\<close> is the
  data of the node list as the store answered it: nothing when it is \<open>null\<close>; the first
  row that lists the id when it is an array; and when it is anything else it has no method
  \<open>find\<close>, so that the call throws a TypeError. Its message is that of the engine.
\<close>

definition findNode :: "rpcData \<Rightarrow> string \<Rightarrow> string + NodeRow option" where
  "findNode allNodes elementId =
     (case allNodes of
        NoData \<Rightarrow> Inr None
      | NodesData ns \<Rightarrow>
          Inr (List.find (\<lambda>n. case source_element_ids n of None \<Rightarrow> False
                                                          | Some ids \<Rightarrow> elementId \<in> set ids) ns)
      | NodeData row \<Rightarrow> Inl ''allNodes?.find is not a function'')"

text \<open>
  The loop \<open>for (const d1Id of concept.d1Ids)\<close> and its three twins: an edge is inserted
  for every id that has a node in \<open>allNodes\<close>; the result of the insertion is not read.
  A throw of the lookup ends the loop, and with it the \<open>try\<close> block.
\<close>

fun createEdges ::
  "Env \<Rightarrow> rpcData \<Rightarrow> string \<Rightarrow> string \<Rightarrow> string list \<Rightarrow> event list \<Rightarrow>
   (string + unit) \<times> event list" where
  "createEdges env allNodes target edgeType [] h = (Inr (), h)"
| "createEdges env allNodes target edgeType (elementId # rest) h =
     (case findNode allNodes elementId of
        Inl errMsg \<Rightarrow> (Inl errMsg, h)
      | Inr None \<Rightarrow> createEdges env allNodes target edgeType rest h
      | Inr (Some node) \<Rightarrow>
          createEdges env allNodes target edgeType rest
            (snd (rpcCall env
                    (InsertEdge \<lparr> p_source_node_id = node_id node, p_target_node_id = target,
                                  p_edge_type = edgeType, p_edge_label = edgeType \<rparr>) h)))"

definition mergedNodeArgs :: "MergedConcept \<Rightarrow> UpsertArgs" where
  "mergedNodeArgs concept =
     \<lparr> p_label = mc_mergedLabel concept, p_description = mc_mergedDescription concept,
       p_node_type = ''concept'', p_source_dataset = ''both'',
       p_source_element_ids = mc_d1Ids concept @ mc_d2Ids concept,
       p_color = ''#a855f7'', p_size = 25,
       p_metadata = MetaMerged (length (mc_d1Ids concept)) (length (mc_d2Ids concept)) \<rparr>"

definition gapNodeArgs :: "Concept \<Rightarrow> UpsertArgs" where
  "gapNodeArgs concept =
     \<lparr> p_label = c_label concept, p_description = c_description concept,
       p_node_type = ''concept'', p_source_dataset = ''dataset1'',
       p_source_element_ids = c_elementIds concept,
       p_color = ''#ef4444'', p_size = 22, p_metadata = MetaGap \<rparr>"

definition orphanNodeArgs :: "Concept \<Rightarrow> UpsertArgs" where
  "orphanNodeArgs concept =
     \<lparr> p_label = c_label concept, p_description = c_description concept,
       p_node_type = ''concept'', p_source_dataset = ''dataset2'',
       p_source_element_ids = c_elementIds concept,
       p_color = ''#f59e0b'', p_size = 22, p_metadata = MetaOrphan \<rparr>"

text \<open>
  The loop over the merged concepts: the upsert of the concept node, of whose result only
  the data is read, and, when the data has an id, the edges from the D1 ids and then from
  the D2 ids.
\<close>

fun createMergedNodes ::
  "Env \<Rightarrow> rpcData \<Rightarrow> MergedConcept list \<Rightarrow> event list \<Rightarrow> (string + unit) \<times> event list" where
  "createMergedNodes env allNodes [] h = (Inr (), h)"
| "createMergedNodes env allNodes (concept # rest) h =
     (case rpcCall env (UpsertNode (mergedNodeArgs concept)) h of
        (r, h1) \<Rightarrow>
          (case conceptNodeId r of
             None \<Rightarrow> createMergedNodes env allNodes rest h1
           | Some target \<Rightarrow>
               (case createEdges env allNodes target ''defines'' (mc_d1Ids concept) h1 of
                  (Inl errMsg, h2) \<Rightarrow> (Inl errMsg, h2)
                | (Inr u, h2) \<Rightarrow>
                    (case createEdges env allNodes target ''implements'' (mc_d2Ids concept) h2 of
                       (Inl errMsg, h3) \<Rightarrow> (Inl errMsg, h3)
                     | (Inr u', h3) \<Rightarrow> createMergedNodes env allNodes rest h3))))"

text \<open>
  The loops over the unmerged D1 concepts (gaps, edges \<open>defines\<close>) and over the unmerged
  D2 concepts (orphans, edges \<open>implements\<close>) differ in the arguments of the node and in
  the type of the edges.
\<close>

fun createUnmergedNodes ::
  "Env \<Rightarrow> rpcData \<Rightarrow> (Concept \<Rightarrow> UpsertArgs) \<Rightarrow> string \<Rightarrow> Concept list \<Rightarrow>
   event list \<Rightarrow> (string + unit) \<times> event list" where
  "createUnmergedNodes env allNodes mkArgs edgeType [] h = (Inr (), h)"
| "createUnmergedNodes env allNodes mkArgs edgeType (concept # rest) h =
     (case rpcCall env (UpsertNode (mkArgs concept)) h of
        (r, h1) \<Rightarrow>
          (case conceptNodeId r of
             None \<Rightarrow> createUnmergedNodes env allNodes mkArgs edgeType rest h1
           | Some target \<Rightarrow>
               (case createEdges env allNodes target edgeType (c_elementIds concept) h1 of
                  (Inl errMsg, h2) \<Rightarrow> (Inl errMsg, h2)
                | (Inr u, h2) \<Rightarrow> createUnmergedNodes env allNodes mkArgs edgeType rest h2)))"

text \<open>
  The phase: \<open>const { data: allNodes } = await supabase.rpc(...)\<close>, the three loops, the
  progress event and the abort check.
\<close>

definition phase25 :: "Env \<Rightarrow> PipelineInput \<Rightarrow> Vars \<Rightarrow> event list \<Rightarrow> (string + Vars) \<times> event list" where
  "phase25 env inp v h =
     (case rpcCall env GetNodes h of
        (r, h1) \<Rightarrow>
          (let allNodes = rpc_data r
           in case createMergedNodes env allNodes (mergedConcepts v) h1 of
                (Inl errMsg, h2) \<Rightarrow> (Inl errMsg, h2)
              | (Inr u, h2) \<Rightarrow>
                  (case createUnmergedNodes env allNodes gapNodeArgs ''defines''
                          (unmergedD1Concepts v) h2 of
                     (Inl errMsg, h3) \<Rightarrow> (Inl errMsg, h3)
                   | (Inr u', h3) \<Rightarrow>
                       (case createUnmergedNodes env allNodes orphanNodeArgs ''implements''
                               (unmergedD2Concepts v) h3 of
                          (Inl errMsg, h4) \<Rightarrow> (Inl errMsg, h4)
                        | (Inr u'', h4) \<Rightarrow>
                            checkAbort env v
                              (h4 @ [SetProgress ((mkProgress BuildingTesseract
                                       (''Analyzing '' @ showNat (length (mergedConcepts v))
                                          @ '' merged concepts for alignment...'') 65)
                                       \<lparr> tesseractTotal := Some (length (mergedConcepts v)) \<rparr>)])))))"

subsection \<open>Phases 3 and 4: tesseract and Venn\<close>

definition phase3 :: "Env \<Rightarrow> PipelineInput \<Rightarrow> Vars \<Rightarrow> event list \<Rightarrow> (string + Vars) \<times> event list" where
  "phase3 env inp v h =
     (let h1 = h @ [Fetch (TesseractRequest (mergedConcepts v) (d1Elements inp) (d2Elements inp))];
          progressed = (\<lambda>cells h'.
            checkAbort env (v\<lparr> tesseractCells := cells \<rparr>)
              (h' @ [SetProgress (mkProgress GeneratingVenn ''Generating final Venn analysis...'' 85)]))
      in case fetchTesseract env h1 of
           Rejected msg \<Rightarrow> (Inl msg, h1)
         | Resolved tesseractResponse \<Rightarrow>
             if resp_ok tesseractResponse then
               (case resp_json tesseractResponse of
                  Inl msg \<Rightarrow> (Inl msg, h1)
                | Inr cells \<Rightarrow> progressed (orEmpty cells) h1)
             else progressed [] (h1 @ [ConsoleError ''[Pipeline] Tesseract failed, continuing...'']))"

definition phase4 :: "Env \<Rightarrow> PipelineInput \<Rightarrow> Vars \<Rightarrow> event list \<Rightarrow> (string + Vars) \<times> event list" where
  "phase4 env inp v h =
     (let h1 = h @ [Fetch (VennRequest (mergedConcepts v) (unmergedD1Concepts v)
                            (unmergedD2Concepts v) (tesseractCells v)
                            (length (d1Elements inp)) (length (d2Elements inp)))]
      in case fetchVenn env h1 of
           Rejected msg \<Rightarrow> (Inl msg, h1)
         | Resolved vennResponse \<Rightarrow>
             (let h2 = snd (rpcCall env (UpdateSession ''completed'' (Some ''completed'')) h1)
              in (Inr v, h2 @ [SetProgress (mkProgress Completed ''Audit pipeline complete!'' 100)])))"

subsection \<open>The \<open>try\<close> block and its handler\<close>

text \<open>The stages in the order of the \<open>try\<close> block; the first that throws ends it.\<close>

definition stages ::
  "Env \<Rightarrow> PipelineInput \<Rightarrow> (Vars \<Rightarrow> event list \<Rightarrow> (string + Vars) \<times> event list) list" where
  "stages env inp =
     [phase0 env inp, phase1 env inp, phase2 env inp, phase25 env inp, phase3 env inp, phase4 env inp]"

fun runStages ::
  "(Vars \<Rightarrow> event list \<Rightarrow> (string + Vars) \<times> event list) list \<Rightarrow> Vars \<Rightarrow> event list \<Rightarrow>
   (string + Vars) \<times> event list" where
  "runStages [] v h = (Inr v, h)"
| "runStages (stage # rest) v h =
     (case stage v h of
        (Inl errMsg, h') \<Rightarrow> (Inl errMsg, h')
      | (Inr v', h') \<Rightarrow> runStages rest v' h')"

text \<open>What the \<open>catch\<close> block does with the message, and the \<open>finally\<close> block after it.\<close>

definition handleError :: "Env \<Rightarrow> string \<Rightarrow> event list \<Rightarrow> event list" where
  "handleError env errMsg h =
     snd (rpcCall env (UpdateSession ''failed'' None)
            (h @ [ConsoleError ''[Pipeline] Error:'', SetError (Some errMsg),
                  SetProgress (mkProgress PhaseError errMsg 0)]))"

definition tryBlock :: "Env \<Rightarrow> PipelineInput \<Rightarrow> (string + Vars) \<times> event list" where
  "tryBlock env inp = runStages (stages env inp) initialVars [SetIsRunning True, SetError None]"

definition runPipeline :: "Env \<Rightarrow> PipelineInput \<Rightarrow> event list" where
  "runPipeline env inp =
     (case tryBlock env inp of
        (Inr v, h) \<Rightarrow> h @ [SetIsRunning False]
      | (Inl errMsg, h) \<Rightarrow> handleError env errMsg h @ [SetIsRunning False])"

subsection \<open>Reading a history\<close>

text \<open>
  \<open>proj f h\<close> collects what \<open>f\<close> reads from each event of the history, in order.
\<close>

definition proj :: "(event \<Rightarrow> 'a list) \<Rightarrow> event list \<Rightarrow> 'a list" where
  "proj f h = concat (map f h)"

fun progressOf :: "event \<Rightarrow> (PipelinePhase \<times> nat) list" where
  "progressOf (SetProgress p) = [(phase p, progress p)]"
| "progressOf _ = []"

fun progressEventOf :: "event \<Rightarrow> PipelineProgress list" where
  "progressEventOf (SetProgress p) = [p]"
| "progressEventOf _ = []"

fun edgeOf :: "event \<Rightarrow> EdgeArgs list" where
  "edgeOf (Rpc (InsertEdge a) r) = [a]"
| "edgeOf _ = []"

fun upsertOf :: "event \<Rightarrow> UpsertArgs list" where
  "upsertOf (Rpc (UpsertNode a) r) = [a]"
| "upsertOf _ = []"

fun sessionStatusOf :: "event \<Rightarrow> string list" where
  "sessionStatusOf (Rpc (UpdateSession s ph) r) = [s]"
| "sessionStatusOf _ = []"

fun consoleErrorOf :: "event \<Rightarrow> string list" where
  "consoleErrorOf (ConsoleError t) = [t]"
| "consoleErrorOf _ = []"

text \<open>The writes to the graph that came back with an error.\<close>

fun failedNodeWriteOf :: "event \<Rightarrow> rpc list" where
  "failedNodeWriteOf (Rpc (UpsertNode a) r) = (if rpc_error r \<noteq> None then [UpsertNode a] else [])"
| "failedNodeWriteOf _ = []"

fun failedEdgeWriteOf :: "event \<Rightarrow> rpc list" where
  "failedEdgeWriteOf (Rpc (InsertEdge a) r) = (if rpc_error r \<noteq> None then [InsertEdge a] else [])"
| "failedEdgeWriteOf _ = []"

text \<open>
  The progress events of a run that goes through: phase and percentage.
\<close>

definition normalProgress :: "(PipelinePhase \<times> nat) list" where
  "normalProgress =
     [(CreatingNodes, 5), (ExtractingD1, 15), (MergingConcepts, 35), (BuildingGraph, 50),
      (BuildingTesseract, 65), (GeneratingVenn, 85), (Completed, 100)]"


subsection \<open>Failed stages\<close>

text \<open>
  An extraction has failed when its response is not \<open>ok\<close>, when its body is not JSON, or
  when the body says \<open>success: false\<close>; a merge likewise.
\<close>

definition failedExtraction :: "ExtractResult HttpResponse \<Rightarrow> bool" where
  "failedExtraction response =
     (\<not> resp_ok response
      \<or> (case resp_json response of Inl msg \<Rightarrow> True | Inr result \<Rightarrow> \<not> er_success result))"

definition failedMerge :: "MergeResult HttpResponse \<Rightarrow> bool" where
  "failedMerge response =
     (\<not> resp_ok response
      \<or> (case resp_json response of Inl msg \<Rightarrow> True | Inr result \<Rightarrow> \<not> mr_success result))"

subsection \<open>Example environments\<close>

text \<open>
  One element on each side; an extraction that puts each in a concept; a merge that fuses
  the two concepts; a store that answers an upsert with the row it wrote and the node
  list with the two element nodes.
\<close>

definition exampleInput :: PipelineInput where
  "exampleInput =
     \<lparr> sessionId = ''s'', projectId = ''p'', shareToken = ''t'',
       d1Elements = [\<lparr> el_id = ''e1'', el_label = ''Login'', el_content = ''Users log in'',
                       el_category = None \<rparr>],
       d2Elements = [\<lparr> el_id = ''x1'', el_label = ''auth.ts'', el_content = ''code'',
                       el_category = Some ''file'' \<rparr>] \<rparr>"

definition emptyInput :: PipelineInput where
  "emptyInput = \<lparr> sessionId = ''s'', projectId = ''p'', shareToken = ''t'',
                  d1Elements = [], d2Elements = [] \<rparr>"

definition elementRows :: "NodeRow list" where
  "elementRows =
     [\<lparr> node_id = ''n:Login'', node_type = ''d1_element'', source_element_ids = Some [''e1''] \<rparr>,
      \<lparr> node_id = ''n:auth.ts'', node_type = ''d2_element'', source_element_ids = Some [''x1''] \<rparr>]"

definition goodStore :: "event list \<Rightarrow> rpc \<Rightarrow> RpcResult" where
  "goodStore h call =
     (case call of
        UpsertNode a \<Rightarrow>
          \<lparr> rpc_data = NodeData \<lparr> node_id = ''n:'' @ p_label a, node_type = p_node_type a,
                                    source_element_ids = Some (p_source_element_ids a) \<rparr>,
            rpc_error = None \<rparr>
      | GetNodes \<Rightarrow> \<lparr> rpc_data = NodesData elementRows, rpc_error = None \<rparr>
      | _ \<Rightarrow> \<lparr> rpc_data = NoData, rpc_error = None \<rparr>)"

definition goodEnv :: Env where
  "goodEnv =
     \<lparr> rpcReply = goodStore,
       fetchExtract = (\<lambda>h. Inr
         (\<lparr> resp_ok = True, resp_status = 200,
            resp_json = Inr \<lparr> er_success = True, er_error = None,
              er_concepts = Some [\<lparr> c_label = ''Auth'', c_description = ''d'', c_elementIds = [''e1''] \<rparr>] \<rparr> \<rparr>,
          \<lparr> resp_ok = True, resp_status = 200,
            resp_json = Inr \<lparr> er_success = True, er_error = None,
              er_concepts = Some [\<lparr> c_label = ''AuthImpl'', c_description = ''d'', c_elementIds = [''x1''] \<rparr>] \<rparr> \<rparr>)),
       fetchMerge = (\<lambda>h. Resolved
         \<lparr> resp_ok = True, resp_status = 200,
           resp_json = Inr \<lparr> mr_success = True, mr_error = None,
             mr_mergedConcepts = Some [\<lparr> mc_mergedLabel = ''Authentication'', mc_mergedDescription = ''d'',
                                        mc_d1ConceptLabels = [''Auth''], mc_d2ConceptLabels = [''AuthImpl''],
                                        mc_d1Ids = [''e1''], mc_d2Ids = [''x1''] \<rparr>],
             mr_unmergedD1Concepts = None, mr_unmergedD2Concepts = None \<rparr> \<rparr>),
       fetchTesseract = (\<lambda>h. Resolved \<lparr> resp_ok = True, resp_status = 200, resp_json = Inr (Some []) \<rparr>),
       fetchVenn = (\<lambda>h. Resolved \<lparr> resp_ok = True, resp_status = 200, resp_json = Inr () \<rparr>),
       abortRequested = (\<lambda>h. False) \<rparr>"

text \<open>The same, with the abort flag set from the start.\<close>

definition abortedEnv :: Env where
  "abortedEnv = goodEnv \<lparr> abortRequested := (\<lambda>h. True) \<rparr>"

text \<open>The same, with a D1 extraction that answers with status 500.\<close>

definition failedD1Env :: Env where
  "failedD1Env =
     goodEnv \<lparr> fetchExtract := (\<lambda>h. Inr
       (\<lparr> resp_ok = False, resp_status = 500,
          resp_json = Inr \<lparr> er_success = False, er_error = Some ''Gemini API error: 503'',
                            er_concepts = None \<rparr> \<rparr>,
        \<lparr> resp_ok = True, resp_status = 200,
          resp_json = Inr \<lparr> er_success = True, er_error = None, er_concepts = Some [] \<rparr> \<rparr>)) \<rparr>"

text \<open>
  The same, on a session that already holds the concept node of an earlier run: the node
  list has that node, which lists \<open>e1\<close> and \<open>x1\<close>, before the element nodes.
\<close>

definition rerunStore :: "event list \<Rightarrow> rpc \<Rightarrow> RpcResult" where
  "rerunStore h call =
     (case call of
        GetNodes \<Rightarrow>
          \<lparr> rpc_data = NodesData
              (\<lparr> node_id = ''n:Authentication'', node_type = ''concept'', source_element_ids = Some [''e1'', ''x1''] \<rparr>
               # elementRows),
            rpc_error = None \<rparr>
      | _ \<Rightarrow> goodStore h call)"

definition rerunEnv :: Env where
  "rerunEnv = goodEnv \<lparr> rpcReply := rerunStore \<rparr>"

text \<open>The same as the first, with a store that refuses every edge.\<close>

definition noEdgeStore :: "event list \<Rightarrow> rpc \<Rightarrow> RpcResult" where
  "noEdgeStore h call =
     (case call of
        InsertEdge a \<Rightarrow> \<lparr> rpc_data = NoData, rpc_error = Some ''insert failed'' \<rparr>
      | _ \<Rightarrow> goodStore h call)"

definition noEdgeEnv :: Env where
  "noEdgeEnv = goodEnv \<lparr> rpcReply := noEdgeStore \<rparr>"

text \<open>The same as the first, with a merge that answers with status 500.\<close>

definition failedMergeEnv :: Env where
  "failedMergeEnv =
     goodEnv \<lparr> fetchMerge := (\<lambda>h. Resolved
       \<lparr> resp_ok = False, resp_status = 500,
         resp_json = Inr \<lparr> mr_success = False, mr_error = Some ''Could not parse JSON from LLM response'',
                           mr_mergedConcepts = None, mr_unmergedD1Concepts = None,
                           mr_unmergedD2Concepts = None \<rparr> \<rparr>) \<rparr>"

text \<open>The same as the first, with a store that refuses every upsert of a node.\<close>

definition noNodeStore :: "event list \<Rightarrow> rpc \<Rightarrow> RpcResult" where
  "noNodeStore h call =
     (case call of
        UpsertNode a \<Rightarrow> \<lparr> rpc_data = NoData, rpc_error = Some ''upsert failed'' \<rparr>
      | _ \<Rightarrow> goodStore h call)"

definition noNodeEnv :: Env where
  "noNodeEnv = goodEnv \<lparr> rpcReply := noNodeStore \<rparr>"

text \<open>The same as the first, with a store that answers the node list with one row, no array.\<close>

definition oneRowStore :: "event list \<Rightarrow> rpc \<Rightarrow> RpcResult" where
  "oneRowStore h call =
     (case call of
        GetNodes \<Rightarrow> \<lparr> rpc_data = NodeData (hd elementRows), rpc_error = None \<rparr>
      | _ \<Rightarrow> goodStore h call)"

definition oneRowEnv :: Env where
  "oneRowEnv = goodEnv \<lparr> rpcReply := oneRowStore \<rparr>"

subsection \<open>Element nodes\<close>

text \<open>The node types that phase 0 writes for the elements of the two datasets.\<close>

definition isElementNode :: "NodeRow \<Rightarrow> bool" where
  "isElementNode n = (node_type n = ''d1_element'' \<or> node_type n = ''d2_element'')"

section \<open>Properties of the reconciliation\<close>

subsection \<open>The lookup map and the two loops\<close>

lemma foldl_upd_Some:
  "foldl (\<lambda>m c. m(kf c \<mapsto> c)) m0 cs k = Some c \<Longrightarrow> (c \<in> set cs \<and> kf c = k) \<or> m0 k = Some c"
  by (induction cs arbitrary: m0) (fastforce split: if_splits)+

lemma keyedBy_conceptByLabel: "keyedBy (conceptByLabel cs) cs"
  unfolding keyedBy_def conceptByLabel_def conceptKey_def
  using foldl_upd_Some[where kf="\<lambda>c. toLowerCase (label c)" and ?m0.0=Map.empty] by fastforce

lemma foldl_upd_dom:
  "c \<in> set cs \<Longrightarrow> \<exists>c'. foldl (\<lambda>m c. m(kf c \<mapsto> c)) m0 cs (kf c) = Some c'"
proof (induction cs arbitrary: m0 rule: rev_induct)
  case Nil then show ?case by simp
next
  case (snoc x xs) then show ?case by (cases "kf x = kf c") auto
qed

lemma resolveLabels_char:
  assumes "keyedBy cbl cs"
  shows "\<exists>V. resolveLabels cbl ls (vs, vl, M) = (vs @ V, vl @ map label V, M \<union> conceptKey ` set V)
            \<and> distinct (map conceptKey V) \<and> conceptKey ` set V \<inter> M = {}
            \<and> set V \<subseteq> set cs
            \<and> conceptKey ` set V \<subseteq> toLowerCase ` set ls
            \<and> (\<forall>v\<in>set V. cbl (conceptKey v) = Some v)"
proof (induction ls arbitrary: vs vl M)
  case Nil
  show ?case by (rule exI[of _ "[]"]) simp
next
  case (Cons l ls)
  let ?key = "toLowerCase l"
  show ?case
  proof (cases "?key \<in> M")
    case True
    from Cons.IH[of vs vl M] obtain V where V: "resolveLabels cbl ls (vs, vl, M) = (vs @ V, vl @ map label V, M \<union> conceptKey ` set V)"
       "distinct (map conceptKey V)" "conceptKey ` set V \<inter> M = {}" "set V \<subseteq> set cs"
       "conceptKey ` set V \<subseteq> toLowerCase ` set ls" "\<forall>v\<in>set V. cbl (conceptKey v) = Some v" by blast
    show ?thesis apply (rule exI[of _ V]) using V True by auto
  next
    case False
    show ?thesis
    proof (cases "cbl ?key")
      case None
      from Cons.IH[of vs vl M] obtain V where V: "resolveLabels cbl ls (vs, vl, M) = (vs @ V, vl @ map label V, M \<union> conceptKey ` set V)"
       "distinct (map conceptKey V)" "conceptKey ` set V \<inter> M = {}" "set V \<subseteq> set cs"
       "conceptKey ` set V \<subseteq> toLowerCase ` set ls" "\<forall>v\<in>set V. cbl (conceptKey v) = Some v" by blast
      show ?thesis apply (rule exI[of _ V]) using V False None by auto
    next
      case (Some found)
      with assms have f: "found \<in> set cs" "conceptKey found = ?key" by (auto simp: keyedBy_def)
      from Cons.IH[of "vs @ [found]" "vl @ [label found]" "insert ?key M"] obtain V where
        V: "resolveLabels cbl ls (vs @ [found], vl @ [label found], insert ?key M)
             = ((vs @ [found]) @ V, (vl @ [label found]) @ map label V, insert ?key M \<union> conceptKey ` set V)"
       "distinct (map conceptKey V)" "conceptKey ` set V \<inter> insert ?key M = {}" "set V \<subseteq> set cs"
       "conceptKey ` set V \<subseteq> toLowerCase ` set ls" "\<forall>v\<in>set V. cbl (conceptKey v) = Some v" by blast
      show ?thesis apply (rule exI[of _ "found # V"]) using V False Some f by auto
    qed
  qed
qed

lemma mergeStep_cases:
  assumes "keyedBy cbl cs"
  shows "mergeStep cbl m (M, out, lg) = (M, out, lg) \<or>
         (\<exists>V. 2 \<le> length V \<and> distinct (map conceptKey V) \<and> conceptKey ` set V \<inter> M = {}
              \<and> set V \<subseteq> set cs
              \<and> conceptKey ` set V \<subseteq> toLowerCase ` set (orEmpty (sourceConcepts m))
              \<and> (\<forall>v\<in>set V. cbl (conceptKey v) = Some v)
              \<and> mergeStep cbl m (M, out, lg) =
                  (M \<union> conceptKey ` set V, out @ [mergedConcept m V],
                   lg @ [\<lparr> from = map label V, to = mergedLabel m \<rparr>]))"
proof -
  from resolveLabels_char[OF assms, of "orEmpty (sourceConcepts m)" "[]" "[]" M]
  obtain V where V: "resolveLabels cbl (orEmpty (sourceConcepts m)) ([], [], M) = (V, map label V, M \<union> conceptKey ` set V)"
       "distinct (map conceptKey V)" "conceptKey ` set V \<inter> M = {}" "set V \<subseteq> set cs"
       "conceptKey ` set V \<subseteq> toLowerCase ` set (orEmpty (sourceConcepts m))" "\<forall>v\<in>set V. cbl (conceptKey v) = Some v" by auto
  show ?thesis
  proof (cases "2 \<le> length V")
    case True
    then show ?thesis using V by (auto simp: mergeStep_def)
  next
    case False
    then have "V = [] \<or> (\<exists>v. V = [v])" by (cases V) (auto simp: Suc_le_eq)
    then show ?thesis using V by (auto simp: mergeStep_def conceptKey_def)
  qed
qed

lemma processMerges_invariant:
  assumes kb: "keyedBy cbl cs"
    and init: "P (M, out, lg)"
    and step: "\<And>M out lg m V. P (M, out, lg) \<Longrightarrow> 2 \<le> length V \<Longrightarrow> distinct (map conceptKey V) \<Longrightarrow>
                 conceptKey ` set V \<inter> M = {} \<Longrightarrow> set V \<subseteq> set cs \<Longrightarrow>
                 P (M \<union> conceptKey ` set V, out @ [mergedConcept m V],
                    lg @ [\<lparr> from = map label V, to = mergedLabel m \<rparr>])"
  shows "P (processMerges cbl ms (M, out, lg))"
  using init
proof (induction ms arbitrary: M out lg)
  case Nil then show ?case by simp
next
  case (Cons m ms)
  from mergeStep_cases[OF kb, of m M out lg] show ?case
  proof
    assume "mergeStep cbl m (M, out, lg) = (M, out, lg)"
    then show ?thesis using Cons by simp
  next
    assume "\<exists>V. 2 \<le> length V \<and> distinct (map conceptKey V) \<and> conceptKey ` set V \<inter> M = {}
              \<and> set V \<subseteq> set cs
              \<and> conceptKey ` set V \<subseteq> toLowerCase ` set (orEmpty (sourceConcepts m))
              \<and> (\<forall>v\<in>set V. cbl (conceptKey v) = Some v)
              \<and> mergeStep cbl m (M, out, lg) =
                  (M \<union> conceptKey ` set V, out @ [mergedConcept m V],
                   lg @ [\<lparr> from = map label V, to = mergedLabel m \<rparr>])"
    then obtain V where V: "2 \<le> length V" "distinct (map conceptKey V)" "conceptKey ` set V \<inter> M = {}"
       "set V \<subseteq> set cs" "mergeStep cbl m (M, out, lg) =
                  (M \<union> conceptKey ` set V, out @ [mergedConcept m V],
                   lg @ [\<lparr> from = map label V, to = mergedLabel m \<rparr>])" by blast
    from step[OF Cons.prems V(1-4)] show ?thesis using Cons.IH V(5) by simp
  qed
qed

subsection \<open>Weighted sums over the concept list\<close>

text \<open>
  Both the conservation of the id counts and the disjointness of the id sets are
  statements about a sum of weights over the output list: the length of an id list in the
  first case, the indicator of one id in the second. The invariant of the outer loop is
  that the weights of the merged concepts emitted so far, plus the weights of the
  concepts not yet marked, stay within the weights of the input.
\<close>

lemma sum_list_holds_0: "sum_list (map (holds x) xss) = 0 \<longleftrightarrow> (\<forall>xs\<in>set xss. x \<notin> set xs)"
  by (induction xss) (auto simp: holds_def)

lemma pairwiseDisjoint_iff:
  "pairwiseDisjoint xss \<longleftrightarrow> (\<forall>x. sum_list (map (holds x) xss) \<le> 1)"
proof (induction xss)
  case Nil show ?case by simp
next
  case (Cons a xss)
  show ?case
  proof
    assume pd: "pairwiseDisjoint (a # xss)"
    show "\<forall>x. sum_list (map (holds x) (a # xss)) \<le> 1"
    proof
      fix x
      show "sum_list (map (holds x) (a # xss)) \<le> 1"
      proof (cases "x \<in> set a")
        case True
        with pd have "\<forall>xs\<in>set xss. x \<notin> set xs" by auto
        then have "sum_list (map (holds x) xss) = 0" by (simp only: sum_list_holds_0)
        moreover have "holds x a = 1" using True by (simp add: holds_def)
        ultimately show ?thesis by simp
      next
        case False
        from pd have "pairwiseDisjoint xss" by simp
        with Cons have "sum_list (map (holds x) xss) \<le> 1" by blast
        moreover have "holds x a = 0" using False by (simp add: holds_def)
        ultimately show ?thesis by simp
      qed
    qed
  next
    assume r: "\<forall>x. sum_list (map (holds x) (a # xss)) \<le> 1"
    have "\<forall>x. sum_list (map (holds x) xss) \<le> 1"
    proof
      fix x
      from r have "holds x a + sum_list (map (holds x) xss) \<le> 1" by simp
      then show "sum_list (map (holds x) xss) \<le> 1" by linarith
    qed
    with Cons have pd: "pairwiseDisjoint xss" by simp
    have "\<forall>ys\<in>set xss. set a \<inter> set ys = {}"
    proof (rule ccontr)
      assume "\<not> (\<forall>ys\<in>set xss. set a \<inter> set ys = {})"
      then obtain ys x where yx: "ys \<in> set xss" "x \<in> set a" "x \<in> set ys" by auto
      then have "sum_list (map (holds x) xss) \<noteq> 0" by (simp only: sum_list_holds_0) auto
      moreover have "holds x a = 1" using yx by (simp add: holds_def)
      ultimately show False using r[rule_format, of x] by simp
    qed
    with pd show "pairwiseDisjoint (a # xss)" by simp
  qed
qed

lemma sum_list_distinct_subset_le:
  fixes g :: "'a \<Rightarrow> nat"
  assumes "distinct V" "set V \<subseteq> set L"
  shows "sum_list (map g V) \<le> sum_list (map g L)"
proof -
  have "sum_list (map g V) = sum g (set V)" using assms(1) by (simp add: sum_list_distinct_conv_sum_set)
  also have "\<dots> \<le> sum g (set L)" using assms(2) by (simp add: sum_mono2)
  also have "\<dots> \<le> sum_list (map g L)"
  proof -
    have "sum_list (map g L) = (\<Sum>x\<in>set L. count_list L x * g x)" by (rule sum_list_map_eq_sum_count)
    moreover have "(\<Sum>x\<in>set L. g x) \<le> (\<Sum>x\<in>set L. count_list L x * g x)"
    proof (rule sum_mono)
      fix x assume "x \<in> set L"
      then have "count_list L x \<noteq> 0" by (simp add: count_list_0_iff)
      then show "g x \<le> count_list L x * g x" by (cases "count_list L x") auto
    qed
    ultimately show ?thesis by simp
  qed
  finally show ?thesis .
qed

lemma sum_list_filter_split:
  fixes g :: "'a \<Rightarrow> nat"
  shows "sum_list (map g xs) = sum_list (map g (filter Q xs)) + sum_list (map g (filter (\<lambda>x. \<not> Q x) xs))"
  by (induction xs) auto

lemma passThrough_Un:
  "passThrough cs (M \<union> K) = filter (\<lambda>c. conceptKey c \<notin> K) (passThrough cs M)"
  by (auto simp: passThrough_def conceptKey_def intro: filter_cong)

lemma distinct_keys_distinct: "distinct (map conceptKey V) \<Longrightarrow> distinct V"
  by (simp add: distinct_map)

lemma weight_le_step:
  fixes g :: "UnifiedConcept \<Rightarrow> nat"
  assumes V: "distinct (map conceptKey V)" "conceptKey ` set V \<inter> M = {}" "set V \<subseteq> set cs"
    and mc: "g mc \<le> sum_list (map g V)"
  shows "g mc + sum_list (map g (passThrough cs (M \<union> conceptKey ` set V)))
         \<le> sum_list (map g (passThrough cs M))"
proof -
  let ?K = "conceptKey ` set V"
  have sub: "set V \<subseteq> set (filter (\<lambda>c. conceptKey c \<in> ?K) (passThrough cs M))"
    using V by (auto simp: passThrough_def conceptKey_def)
  have "sum_list (map g V) \<le> sum_list (map g (filter (\<lambda>c. conceptKey c \<in> ?K) (passThrough cs M)))"
    by (rule sum_list_distinct_subset_le[OF distinct_keys_distinct[OF V(1)] sub])
  moreover have "sum_list (map g (passThrough cs M)) =
     sum_list (map g (filter (\<lambda>c. conceptKey c \<in> ?K) (passThrough cs M)))
     + sum_list (map g (filter (\<lambda>c. \<not> conceptKey c \<in> ?K) (passThrough cs M)))"
    by (rule sum_list_filter_split)
  ultimately show ?thesis using mc by (simp add: passThrough_Un)
qed

lemma weight_ge_step:
  fixes g :: "UnifiedConcept \<Rightarrow> nat"
  assumes V: "distinct (map conceptKey V)" "conceptKey ` set V \<inter> M = {}" "set V \<subseteq> set cs"
    and dk: "distinct (map conceptKey cs)"
    and mc: "sum_list (map g V) \<le> g mc"
  shows "sum_list (map g (passThrough cs M))
         \<le> g mc + sum_list (map g (passThrough cs (M \<union> conceptKey ` set V)))"
proof -
  let ?K = "conceptKey ` set V"
  let ?F = "filter (\<lambda>c. conceptKey c \<in> ?K) (passThrough cs M)"
  have inj: "inj_on conceptKey (set cs)" using dk by (simp add: distinct_map)
  have dF: "distinct ?F" using distinct_keys_distinct[OF dk] by (simp add: passThrough_def)
  have sub: "set ?F \<subseteq> set V"
  proof
    fix c assume "c \<in> set ?F"
    then have c: "c \<in> set cs" "conceptKey c \<in> ?K" by (auto simp: passThrough_def)
    then obtain v where v: "v \<in> set V" "conceptKey v = conceptKey c" by auto
    with V(3) c(1) inj have "v = c" by (auto dest: inj_onD)
    with v show "c \<in> set V" by simp
  qed
  have "sum_list (map g ?F) \<le> sum_list (map g V)"
    by (rule sum_list_distinct_subset_le[OF dF sub])
  moreover have "sum_list (map g (passThrough cs M)) =
     sum_list (map g ?F)
     + sum_list (map g (filter (\<lambda>c. \<not> conceptKey c \<in> ?K) (passThrough cs M)))"
    by (rule sum_list_filter_split)
  ultimately show ?thesis using mc by (simp add: passThrough_Un)
qed

lemma passThrough_empty: "passThrough cs {} = cs"
  by (simp add: passThrough_def)

lemma reconcile_weight_le:
  fixes g :: "UnifiedConcept \<Rightarrow> nat"
  assumes mc: "\<And>m V. g (mergedConcept m V) \<le> sum_list (map g V)"
  shows "sum_list (map g (fst (reconcile cs parsed))) \<le> sum_list (map g cs)"
proof -
  let ?P = "\<lambda>st. case st of (M, out, lg) \<Rightarrow>
              sum_list (map g out) + sum_list (map g (passThrough cs M)) \<le> sum_list (map g cs)"
  have "?P (processMerges (conceptByLabel cs) (orEmpty (merges parsed)) ({}, [], []))"
  proof (rule processMerges_invariant[OF keyedBy_conceptByLabel])
    show "?P ({}, [], [])" by (simp add: passThrough_empty)
  next
    fix M :: "string set" and out :: "UnifiedConcept list" and lg :: "MergeLogEntry list"
      and m :: MergeInstruction and V :: "UnifiedConcept list"
    assume P: "?P (M, out, lg)" and V: "distinct (map conceptKey V)" "conceptKey ` set V \<inter> M = {}" "set V \<subseteq> set cs"
    from weight_le_step[OF V mc, of m] P
    show "?P (M \<union> conceptKey ` set V, out @ [mergedConcept m V], lg @ [\<lparr> from = map label V, to = mergedLabel m \<rparr>])"
      by simp
  qed
  then show ?thesis by (auto simp: reconcile_def split: prod.splits)
qed

lemma reconcile_weight_ge:
  fixes g :: "UnifiedConcept \<Rightarrow> nat"
  assumes dk: "distinct (map conceptKey cs)"
    and mc: "\<And>m V. distinct V \<Longrightarrow> set V \<subseteq> set cs \<Longrightarrow> sum_list (map g V) \<le> g (mergedConcept m V)"
  shows "sum_list (map g cs) \<le> sum_list (map g (fst (reconcile cs parsed)))"
proof -
  let ?P = "\<lambda>st. case st of (M, out, lg) \<Rightarrow>
              sum_list (map g cs) \<le> sum_list (map g out) + sum_list (map g (passThrough cs M))"
  have "?P (processMerges (conceptByLabel cs) (orEmpty (merges parsed)) ({}, [], []))"
  proof (rule processMerges_invariant[OF keyedBy_conceptByLabel])
    show "?P ({}, [], [])" by (simp add: passThrough_empty)
  next
    fix M :: "string set" and out :: "UnifiedConcept list" and lg :: "MergeLogEntry list"
      and m :: MergeInstruction and V :: "UnifiedConcept list"
    assume P: "?P (M, out, lg)" and V: "distinct (map conceptKey V)" "conceptKey ` set V \<inter> M = {}" "set V \<subseteq> set cs"
    from weight_ge_step[OF V dk mc[OF distinct_keys_distinct[OF V(1)] V(3)], of m] P
    show "?P (M \<union> conceptKey ` set V, out @ [mergedConcept m V], lg @ [\<lparr> from = map label V, to = mergedLabel m \<rparr>])"
      by simp
  qed
  then show ?thesis by (auto simp: reconcile_def split: prod.splits)
qed

lemma foldl_add_sum_list:
  fixes g :: "'a \<Rightarrow> nat"
  shows "foldl (\<lambda>s c. s + g c) a cs = a + sum_list (map g cs)"
  by (induction cs arbitrary: a) auto

lemma d1Count_sum: "d1Count cs = sum_list (map (\<lambda>c. length (orEmpty (d1Ids c))) cs)"
  by (simp add: d1Count_def foldl_add_sum_list)

lemma d2Count_sum: "d2Count cs = sum_list (map (\<lambda>c. length (orEmpty (d2Ids c))) cs)"
  by (simp add: d2Count_def foldl_add_sum_list)

lemma set_dedupe [simp]: "set (dedupe xs) = set xs"
  by (simp add: dedupe_def)

lemma distinct_dedupe [simp]: "distinct (dedupe xs)"
  by (simp add: dedupe_def)

lemma length_dedupe_le: "length (dedupe xs) \<le> length xs"
  by (simp add: dedupe_def) (metis length_remdups_leq length_rev)

lemma dedupe_distinct: "distinct xs \<Longrightarrow> dedupe xs = xs"
  by (simp add: dedupe_def distinct_remdups_id)

lemma length_concat_sum: "length (concat (map f V)) = sum_list (map (\<lambda>v. length (f v)) V)"
  by (induction V) auto

lemma holds_append_le: "holds x (xs @ ys) \<le> holds x xs + holds x ys"
  by (simp add: holds_def)

lemma holds_concat_le: "holds x (concat (map f V)) \<le> sum_list (map (\<lambda>v. holds x (f v)) V)"
proof (induction V)
  case Nil show ?case by (simp add: holds_def)
next
  case (Cons a V)
  have "holds x (concat (map f (a # V))) \<le> holds x (f a) + holds x (concat (map f V))"
    using holds_append_le[of x "f a" "concat (map f V)"] by simp
  with Cons show ?case by simp
qed

lemma distinct_iff_count_le_1: "distinct xs \<longleftrightarrow> (\<forall>x. count_list xs x \<le> 1)"
proof (induction xs)
  case Nil show ?case by simp
next
  case (Cons a xs)
  show ?case
  proof
    assume d: "distinct (a # xs)"
    then have "\<forall>x. count_list xs x \<le> 1" using Cons by simp
    moreover from d have "count_list xs a = 0" by simp
    ultimately show "\<forall>x. count_list (a # xs) x \<le> 1" by simp
  next
    assume r: "\<forall>x. count_list (a # xs) x \<le> 1"
    have "\<forall>x. count_list xs x \<le> 1"
    proof
      fix x from r[rule_format, of x] show "count_list xs x \<le> 1" by (simp split: if_splits)
    qed
    with Cons have "distinct xs" by simp
    moreover from r[rule_format, of a] have "count_list xs a = 0" by simp
    then have "a \<notin> set xs" by (simp add: count_list_0_iff)
    ultimately show "distinct (a # xs)" by simp
  qed
qed

lemma count_list_concat: "count_list (concat (map f V)) x = sum_list (map (\<lambda>v. count_list (f v) x) V)"
  by (induction V) auto

lemma distinct_concat_sub:
  assumes "distinct (concat (map f cs))" "distinct V" "set V \<subseteq> set cs"
  shows "distinct (concat (map f V))"
proof -
  have "\<forall>x. count_list (concat (map f V)) x \<le> 1"
  proof
    fix x
    have "count_list (concat (map f V)) x \<le> count_list (concat (map f cs)) x"
      unfolding count_list_concat by (rule sum_list_distinct_subset_le[OF assms(2,3)])
    also have "\<dots> \<le> 1" using assms(1) by (simp only: distinct_iff_count_le_1)
    finally show "count_list (concat (map f V)) x \<le> 1" .
  qed
  then show ?thesis by (simp add: distinct_iff_count_le_1)
qed

lemma processMerges_append:
  "processMerges cbl (ms1 @ ms2) st = processMerges cbl ms2 (processMerges cbl ms1 st)"
  by (induction ms1 arbitrary: st) auto

lemma mergeStep_degenerate:
  assumes kb: "keyedBy cbl cs"
    and rs: "resolveLabels cbl (orEmpty (sourceConcepts m)) ([], [], M) = (vs, vl, M')"
    and lt: "length vs < 2"
  shows "mergeStep cbl m (M, out, lg) = (M, out, lg)"
proof -
  from resolveLabels_char[OF kb, of "orEmpty (sourceConcepts m)" "[]" "[]" M] rs
  have M': "M' = M \<union> conceptKey ` set vs" and dj: "conceptKey ` set vs \<inter> M = {}" by auto
  from lt have "vs = [] \<or> (\<exists>v. vs = [v])" by (cases vs) (auto simp: Suc_le_eq)
  then show ?thesis using rs M' dj by (auto simp: mergeStep_def conceptKey_def)
qed

lemma mergeStep_other_key:
  assumes kb: "keyedBy cbl cs"
    and nk: "k \<notin> toLowerCase ` set (orEmpty (sourceConcepts m))"
  shows "k \<in> fst (mergeStep cbl m (M, out, lg)) \<longleftrightarrow> k \<in> M"
proof -
  from mergeStep_cases[OF kb, of m M out lg]
  consider "mergeStep cbl m (M, out, lg) = (M, out, lg)"
    | V where "conceptKey ` set V \<subseteq> toLowerCase ` set (orEmpty (sourceConcepts m))"
        "fst (mergeStep cbl m (M, out, lg)) = M \<union> conceptKey ` set V"
    by fastforce
  then show ?thesis
  proof cases
    case 1 then show ?thesis by simp
  next
    case 2
    with nk have "k \<notin> conceptKey ` set V" by blast
    with 2 show ?thesis by simp
  qed
qed

lemma processMerges_other_key:
  assumes kb: "keyedBy cbl cs"
    and nk: "\<forall>m\<in>set ms. k \<notin> toLowerCase ` set (orEmpty (sourceConcepts m))"
  shows "k \<in> fst (processMerges cbl ms (M, out, lg)) \<longleftrightarrow> k \<in> M"
  using nk
proof (induction ms arbitrary: M out lg)
  case Nil then show ?case by simp
next
  case (Cons m ms)
  obtain M1 out1 lg1 where s: "mergeStep cbl m (M, out, lg) = (M1, out1, lg1)" by (cases "mergeStep cbl m (M, out, lg)")
  from mergeStep_other_key[OF kb, of k m M out lg] Cons.prems s have "k \<in> M1 \<longleftrightarrow> k \<in> M" by simp
  moreover from Cons.IH[of M1 out1 lg1] Cons.prems have "k \<in> fst (processMerges cbl ms (M1, out1, lg1)) \<longleftrightarrow> k \<in> M1" by simp
  ultimately show ?case using s by simp
qed

lemma mergeLog_keys_invariant:
  "case processMerges (conceptByLabel cs) ms ({}, [], []) of (M, out, lg) \<Rightarrow>
     distinct (map toLowerCase (concat (map from lg))) \<and> toLowerCase ` set (concat (map from lg)) \<subseteq> M"
proof (rule processMerges_invariant[OF keyedBy_conceptByLabel])
  show "case ({}, [], []) of (M, out, lg) \<Rightarrow>
     distinct (map toLowerCase (concat (map from lg))) \<and> toLowerCase ` set (concat (map from lg)) \<subseteq> M" by simp
next
  fix M :: "string set" and out :: "UnifiedConcept list" and lg :: "MergeLogEntry list"
      and m :: MergeInstruction and V :: "UnifiedConcept list"
  assume P: "case (M, out, lg) of (M, out, lg) \<Rightarrow>
     distinct (map toLowerCase (concat (map from lg))) \<and> toLowerCase ` set (concat (map from lg)) \<subseteq> M"
    and V: "distinct (map conceptKey V)" "conceptKey ` set V \<inter> M = {}"
  have eq: "map toLowerCase (map label V) = map conceptKey V" by (simp add: conceptKey_def[abs_def])
  have eq2: "toLowerCase ` label ` set V = conceptKey ` set V" by (auto simp: conceptKey_def)
  from P have P1: "distinct (map toLowerCase (concat (map from lg)))"
    and P2: "toLowerCase ` set (concat (map from lg)) \<subseteq> M" by simp_all
  have d: "distinct (map toLowerCase (map label V))" using V(1) by (simp only: eq)
  have s: "set (map toLowerCase (map label V)) = conceptKey ` set V" using eq2 by (simp add: image_image)
  have dj: "set (map toLowerCase (concat (map from lg))) \<inter> set (map toLowerCase (map label V)) = {}"
    using P2 V(2) unfolding s by auto
  have "distinct (map toLowerCase (concat (map from lg)) @ map toLowerCase (map label V))"
    using P1 d dj by (simp only: distinct_append)
  moreover have "toLowerCase ` set (concat (map from lg)) \<union> conceptKey ` set V \<subseteq> M \<union> conceptKey ` set V"
    using P2 by blast
  ultimately show "case (M \<union> conceptKey ` set V, out @ [mergedConcept m V], lg @ [\<lparr> from = map label V, to = mergedLabel m \<rparr>]) of
     (M, out, lg) \<Rightarrow>
     distinct (map toLowerCase (concat (map from lg))) \<and> toLowerCase ` set (concat (map from lg)) \<subseteq> M"
    using eq2 by (simp add: image_Un image_image)
qed

subsection \<open>Evaluation of the merge functions on concrete inputs\<close>

lemma lower_eval:
  "toLowerCase ''Auth'' = ''auth''"
  "toLowerCase ''AuthImpl'' = ''authimpl''"
  "toLowerCase ''Authentication'' = ''authentication''"
  "toLowerCase ''Logging'' = ''logging''"
  "toLowerCase ''Login'' = ''login''"
  "toLowerCase ''Misc'' = ''misc''"
  "toLowerCase ''Ghost'' = ''ghost''"
  "toLowerCase ''a'' = ''a''"
  "toLowerCase ''b'' = ''b''"
  "toLowerCase ''c'' = ''c''"
  "toLowerCase ''Audit trail'' = ''audit trail''"
  "toLowerCase ''auth'' = ''auth''"
  "toLowerCase ''authimpl'' = ''authimpl''"
  "toLowerCase ''logging'' = ''logging''"
  "toLowerCase ''Observability'' = ''observability''"
  "toLowerCase ''Operations'' = ''operations''"
  "toLowerCase ''Sign-in'' = ''sign-in''"
  by (simp_all add: toLowerCase_def lowerChar_def upperLetters_def lowerLetters_def)

lemmas merge_eval = reconcile_def conceptByLabel_def mergeStep_def mergedConcept_def passThrough_def
  lower_eval orEmpty_def dedupe_def d1Count_def d2Count_def Let_def
  scenarioConcepts_def authGroup_def lateGroup_def overlapConcepts_def overlapGroup_def
  sameLabelConcepts_def sameLabelGroup_def ghostGroup_def miscGroup_def

subsection \<open>Conservation of the element-id counts\<close>

text \<open>
  The id counts of the output never exceed those of the input, whatever the concepts and
  the proposed groups are: a merge pass duplicates no id.
\<close>

lemma reconcile_counts_never_grow:
  "d1Count (fst (reconcile concepts parsed)) \<le> d1Count concepts
   \<and> d2Count (fst (reconcile concepts parsed)) \<le> d2Count concepts"
proof
  show "d1Count (fst (reconcile concepts parsed)) \<le> d1Count concepts"
    unfolding d1Count_sum
    by (rule reconcile_weight_le)
       (simp add: mergedConcept_def orEmpty_def length_concat_sum[symmetric] length_dedupe_le)
  show "d2Count (fst (reconcile concepts parsed)) \<le> d2Count concepts"
    unfolding d2Count_sum
    by (rule reconcile_weight_le)
       (simp add: mergedConcept_def orEmpty_def length_concat_sum[symmetric] length_dedupe_le)
qed

text \<open>
  The counts are conserved when the labels of the input concepts are pairwise different
  (case-insensitively) and no id occurs twice in the D1 id lists, nor in the D2 id lists,
  of the input.
\<close>

lemma reconcile_conserves_counts_when_distinct:
  assumes dk: "distinct (map (\<lambda>c. toLowerCase (label c)) concepts)"
    and d1: "distinct (concat (map (\<lambda>c. orEmpty (d1Ids c)) concepts))"
    and d2: "distinct (concat (map (\<lambda>c. orEmpty (d2Ids c)) concepts))"
  shows "d1Count (fst (reconcile concepts parsed)) = d1Count concepts
       \<and> d2Count (fst (reconcile concepts parsed)) = d2Count concepts
       \<and> d1Count (fst (reconcile concepts parsed)) + d2Count (fst (reconcile concepts parsed))
           = d1Count concepts + d2Count concepts"
proof -
  have dk': "distinct (map conceptKey concepts)" using dk by (simp add: conceptKey_def[abs_def])
  have a1: "d1Count (fst (reconcile concepts parsed)) \<le> d1Count concepts"
    unfolding d1Count_sum
    by (rule reconcile_weight_le)
       (simp add: mergedConcept_def orEmpty_def length_concat_sum[symmetric] length_dedupe_le)
  have b1: "d1Count concepts \<le> d1Count (fst (reconcile concepts parsed))"
    unfolding d1Count_sum
  proof (rule reconcile_weight_ge[OF dk'])
    fix m V assume "distinct V" "set V \<subseteq> set concepts"
    from distinct_concat_sub[OF d1 this]
    show "sum_list (map (\<lambda>c. length (orEmpty (d1Ids c))) V)
          \<le> length (orEmpty (d1Ids (mergedConcept m V)))"
      by (simp add: mergedConcept_def dedupe_distinct length_concat_sum orEmpty_def)
  qed
  have a2: "d2Count (fst (reconcile concepts parsed)) \<le> d2Count concepts"
    unfolding d2Count_sum
    by (rule reconcile_weight_le)
       (simp add: mergedConcept_def orEmpty_def length_concat_sum[symmetric] length_dedupe_le)
  have b2: "d2Count concepts \<le> d2Count (fst (reconcile concepts parsed))"
    unfolding d2Count_sum
  proof (rule reconcile_weight_ge[OF dk'])
    fix m V assume "distinct V" "set V \<subseteq> set concepts"
    from distinct_concat_sub[OF d2 this]
    show "sum_list (map (\<lambda>c. length (orEmpty (d2Ids c))) V)
          \<le> length (orEmpty (d2Ids (mergedConcept m V)))"
      by (simp add: mergedConcept_def dedupe_distinct length_concat_sum orEmpty_def)
  qed
  from a1 b1 a2 b2 show ?thesis by simp
qed

text \<open>
  Claim C1 states the conservation for every concept list and every list of proposed
  groups. The reconciliation does not conserve the counts on two kinds of input, and its
  own verification block (\<open>CRITICAL VERIFICATION: No element loss\<close>) reports both as an
  element loss. First, the lookup map has one entry for each lower-cased label, the last
  concept with that label: when the D1 side and the D2 side both have a concept
  Authentication and the reply merges Authentication with Login, the merged concept is
  built from the D2 concept alone, both concepts are marked, and the D1 concept is
  neither merged nor passed through: its ids A and B are in no concept of the output, and
  the D1 count goes from 2 to 0. Second, the merged concept is built with a set union: when
  two merged concepts both list the element \<open>e1\<close>, it is counted once afterwards, and
  the sum of the counts goes from 3 to 2. The theorem evaluates the reconciliation on both
  inputs.
\<close>

theorem reconcile_loses_element_ids:
  "reconcile sameLabelConcepts \<lparr> merges = Some [sameLabelGroup] \<rparr>
     = ([\<lparr> label = ''Sign-in'', description = ''merged'', d1Ids = Some [],
           d2Ids = Some [''X'', ''Y''], elementLabels = Some [] \<rparr>],
        [\<lparr> from = [''Authentication'', ''Login''], to = ''Sign-in'' \<rparr>])
   \<and> d1Count sameLabelConcepts + d2Count sameLabelConcepts = 4
   \<and> d1Count (fst (reconcile sameLabelConcepts \<lparr> merges = Some [sameLabelGroup] \<rparr>))
       + d2Count (fst (reconcile sameLabelConcepts \<lparr> merges = Some [sameLabelGroup] \<rparr>)) = 2
   \<and> d1Count overlapConcepts + d2Count overlapConcepts = 3
   \<and> d1Count (fst (reconcile overlapConcepts \<lparr> merges = Some [overlapGroup] \<rparr>))
       + d2Count (fst (reconcile overlapConcepts \<lparr> merges = Some [overlapGroup] \<rparr>)) = 2"
  by (simp add: merge_eval)

subsection \<open>First-wins and degenerate groups\<close>

text \<open>
  Claim C2, as amended. The claim says that the single valid member of a group passes
  through to the output. The group unmarks it, and an unmarked concept is open to the
  groups that follow: when a later group lists its label with another valid member, it is
  merged there (\<open>unmarked_member_merged_later\<close> below). What holds: let the groups
  \<open>ms1\<close> have been processed, leaving the state
  \<open>(mergedLabels, outputConcepts, mergeLog)\<close>, and let the next group \<open>m\<close> resolve to
  \<open>validSources\<close>. Then every label recorded by an earlier merge is marked, and no
  concept with a marked key is among \<open>validSources\<close> (first-wins), so that over the whole
  pass no label occurs in two entries of the merge log; when \<open>m\<close> resolves to fewer than
  two members, processing it leaves the state as it was (no merged concept, no log entry,
  the single member unmarked), and the result of the pass is the result without \<open>m\<close>;
  when it resolves to exactly one member, that member, a concept of the input, is in the
  output as it was, unless a later group lists its label.
\<close>

theorem merge_groups_first_wins:
  assumes st: "processMerges (conceptByLabel concepts) ms1 ({}, [], [])
                 = (mergedLabels, outputConcepts, mergeLog)"
    and rs: "resolveLabels (conceptByLabel concepts) (orEmpty (sourceConcepts m)) ([], [], mergedLabels)
               = (validSources, validSourceLabels, mergedLabels')"
  shows "(\<forall>e \<in> set mergeLog. \<forall>l \<in> set (from e). toLowerCase l \<in> mergedLabels)
       \<and> (\<forall>c \<in> set validSources. toLowerCase (label c) \<notin> mergedLabels)
       \<and> distinct (map toLowerCase (concat (map from
            (snd (reconcile concepts \<lparr> merges = Some (ms1 @ m # ms2) \<rparr>)))))
       \<and> (length validSources < 2 \<longrightarrow>
            mergeStep (conceptByLabel concepts) m (mergedLabels, outputConcepts, mergeLog)
              = (mergedLabels, outputConcepts, mergeLog)
            \<and> reconcile concepts \<lparr> merges = Some (ms1 @ m # ms2) \<rparr>
              = reconcile concepts \<lparr> merges = Some (ms1 @ ms2) \<rparr>)
       \<and> (length validSources = 1 \<longrightarrow>
            (\<forall>m' \<in> set ms2. toLowerCase (label (hd validSources))
                                \<notin> toLowerCase ` set (orEmpty (sourceConcepts m'))) \<longrightarrow>
            hd validSources \<in> set concepts
            \<and> hd validSources \<in> set (fst (reconcile concepts \<lparr> merges = Some (ms1 @ m # ms2) \<rparr>)))"
proof -
  let ?cbl = "conceptByLabel concepts"
  note kb = keyedBy_conceptByLabel[of concepts]
  from resolveLabels_char[OF kb, of "orEmpty (sourceConcepts m)" "[]" "[]" mergedLabels] rs
  have dj: "conceptKey ` set validSources \<inter> mergedLabels = {}"
    and sub: "set validSources \<subseteq> set concepts" by auto
  from mergeLog_keys_invariant[of concepts ms1] st
  have c1: "\<forall>e \<in> set mergeLog. \<forall>l \<in> set (from e). toLowerCase l \<in> mergedLabels" by auto
  from dj have fw: "\<forall>c \<in> set validSources. toLowerCase (label c) \<notin> mergedLabels"
    by (auto simp: conceptKey_def)
  from mergeLog_keys_invariant[of concepts "ms1 @ m # ms2"]
  have c3: "distinct (map toLowerCase (concat (map from
              (snd (reconcile concepts \<lparr> merges = Some (ms1 @ m # ms2) \<rparr>)))))"
    by (auto simp: reconcile_def orEmpty_def split: prod.splits)
  have deg: "length validSources < 2 \<Longrightarrow>
       mergeStep ?cbl m (mergedLabels, outputConcepts, mergeLog) = (mergedLabels, outputConcepts, mergeLog)"
    by (rule mergeStep_degenerate[OF kb rs])
  have c4: "length validSources < 2 \<longrightarrow>
           mergeStep ?cbl m (mergedLabels, outputConcepts, mergeLog) = (mergedLabels, outputConcepts, mergeLog)
           \<and> reconcile concepts \<lparr> merges = Some (ms1 @ m # ms2) \<rparr>
             = reconcile concepts \<lparr> merges = Some (ms1 @ ms2) \<rparr>"
    using deg st by (simp add: reconcile_def orEmpty_def processMerges_append)
  have c5: "length validSources = 1 \<longrightarrow>
           (\<forall>m' \<in> set ms2. toLowerCase (label (hd validSources))
                               \<notin> toLowerCase ` set (orEmpty (sourceConcepts m'))) \<longrightarrow>
           hd validSources \<in> set concepts
           \<and> hd validSources \<in> set (fst (reconcile concepts \<lparr> merges = Some (ms1 @ m # ms2) \<rparr>))"
  proof (intro impI)
    assume one: "length validSources = 1"
      and later: "\<forall>m' \<in> set ms2. toLowerCase (label (hd validSources))
                                    \<notin> toLowerCase ` set (orEmpty (sourceConcepts m'))"
    from one obtain c where c: "validSources = [c]" by (cases validSources) auto
    from c sub have cin: "c \<in> set concepts" by simp
    from c fw have nk: "toLowerCase (label c) \<notin> mergedLabels" by simp
    from one deg have same: "mergeStep ?cbl m (mergedLabels, outputConcepts, mergeLog)
                               = (mergedLabels, outputConcepts, mergeLog)" by simp
    obtain M2 out2 lg2 where
      fin: "processMerges ?cbl ms2 (mergedLabels, outputConcepts, mergeLog) = (M2, out2, lg2)"
      by (cases "processMerges ?cbl ms2 (mergedLabels, outputConcepts, mergeLog)")
    from processMerges_other_key[OF kb, of ms2 "toLowerCase (label c)" mergedLabels outputConcepts mergeLog]
      later c fin nk
    have "toLowerCase (label c) \<notin> M2" by simp
    with cin have "c \<in> set (passThrough concepts M2)" by (simp add: passThrough_def)
    then have "c \<in> set (fst (reconcile concepts \<lparr> merges = Some (ms1 @ m # ms2) \<rparr>))"
      using st same fin by (simp add: reconcile_def orEmpty_def processMerges_append)
    with cin c show "hd validSources \<in> set concepts
           \<and> hd validSources \<in> set (fst (reconcile concepts \<lparr> merges = Some (ms1 @ m # ms2) \<rparr>))"
      by simp
  qed
  from c1 fw c3 c4 c5 show ?thesis by (intro conjI)
qed

text \<open>
  On the scenario: the first group claims Auth and AuthImpl; the later group lists Auth
  again, with Logging. Auth is skipped, the group resolves to Logging alone, nothing is
  merged and Logging is in the output.
\<close>

theorem merge_groups_first_wins_witness:
  "processMerges (conceptByLabel scenarioConcepts) [authGroup] ({}, [], [])
     = ({''authimpl'', ''auth''},
        [\<lparr> label = ''Authentication'', description = ''merged'', d1Ids = Some [''A'', ''B''],
           d2Ids = Some [''X''], elementLabels = Some [] \<rparr>],
        [\<lparr> from = [''Auth'', ''AuthImpl''], to = ''Authentication'' \<rparr>])
   \<and> resolveLabels (conceptByLabel scenarioConcepts) (orEmpty (sourceConcepts lateGroup))
        ([], [], {''authimpl'', ''auth''})
     = ([\<lparr> label = ''Logging'', description = ''d1'', d1Ids = Some [''C''], d2Ids = Some [],
           elementLabels = None \<rparr>],
        [''Logging''], {''logging'', ''authimpl'', ''auth''})
   \<and> reconcile scenarioConcepts \<lparr> merges = Some [authGroup, lateGroup] \<rparr>
     = reconcile scenarioConcepts \<lparr> merges = Some [authGroup] \<rparr>
   \<and> \<lparr> label = ''Logging'', description = ''d1'', d1Ids = Some [''C''], d2Ids = Some [],
        elementLabels = None \<rparr>
       \<in> set (fst (reconcile scenarioConcepts \<lparr> merges = Some [authGroup, lateGroup] \<rparr>))"
proof -
  have st: "processMerges (conceptByLabel scenarioConcepts) [authGroup] ({}, [], [])
     = ({''authimpl'', ''auth''},
        [\<lparr> label = ''Authentication'', description = ''merged'', d1Ids = Some [''A'', ''B''],
           d2Ids = Some [''X''], elementLabels = Some [] \<rparr>],
        [\<lparr> from = [''Auth'', ''AuthImpl''], to = ''Authentication'' \<rparr>])"
    by (simp add: merge_eval)
  have rs: "resolveLabels (conceptByLabel scenarioConcepts) (orEmpty (sourceConcepts lateGroup))
        ([], [], {''authimpl'', ''auth''})
     = ([\<lparr> label = ''Logging'', description = ''d1'', d1Ids = Some [''C''], d2Ids = Some [],
           elementLabels = None \<rparr>],
        [''Logging''], {''logging'', ''authimpl'', ''auth''})"
    by (simp add: merge_eval)
  let ?logging = "\<lparr> label = ''Logging'', description = ''d1'', d1Ids = Some [''C''], d2Ids = Some [],
           elementLabels = None \<rparr>"
  note T = merge_groups_first_wins [OF st rs, of "[]"]
  have lt: "length [?logging] < 2" and one: "length [?logging] = 1" by simp_all
  have nl: "\<forall>m' \<in> set []. toLowerCase (label (hd [?logging]))
              \<notin> toLowerCase ` set (orEmpty (sourceConcepts m'))" by simp
  from T lt have e: "reconcile scenarioConcepts \<lparr> merges = Some ([authGroup] @ lateGroup # []) \<rparr>
     = reconcile scenarioConcepts \<lparr> merges = Some ([authGroup] @ []) \<rparr>" by blast
  from T one nl have "hd [?logging]
     \<in> set (fst (reconcile scenarioConcepts \<lparr> merges = Some ([authGroup] @ lateGroup # []) \<rparr>))" by blast
  then have m: "?logging
     \<in> set (fst (reconcile scenarioConcepts \<lparr> merges = Some [authGroup, lateGroup] \<rparr>))"
    by (simp only: list.sel append.simps)
  from e have e': "reconcile scenarioConcepts \<lparr> merges = Some [authGroup, lateGroup] \<rparr>
     = reconcile scenarioConcepts \<lparr> merges = Some [authGroup] \<rparr>"
    by (simp only: append.simps)
  from st rs e' m show ?thesis by (intro conjI)
qed

text \<open>
  The claim as stated fails: the first group lists Logging and a name that is no concept,
  resolves to Logging alone and unmarks it; the second group lists Logging and Misc and
  merges them. Logging is not in the output.
\<close>

theorem unmarked_member_merged_later:
  "resolveLabels (conceptByLabel scenarioConcepts) (orEmpty (sourceConcepts ghostGroup)) ([], [], {})
     = ([\<lparr> label = ''Logging'', description = ''d1'', d1Ids = Some [''C''], d2Ids = Some [],
           elementLabels = None \<rparr>],
        [''Logging''], {''logging''})
   \<and> mergeStep (conceptByLabel scenarioConcepts) ghostGroup ({}, [], []) = ({}, [], [])
   \<and> reconcile scenarioConcepts \<lparr> merges = Some [ghostGroup, miscGroup] \<rparr>
     = ([\<lparr> label = ''Operations'', description = ''merged'', d1Ids = Some [''C''],
           d2Ids = Some [''Y''], elementLabels = Some [] \<rparr>,
         \<lparr> label = ''Auth'', description = ''d1'', d1Ids = Some [''A'', ''B''], d2Ids = Some [],
           elementLabels = None \<rparr>,
         \<lparr> label = ''AuthImpl'', description = ''d2'', d1Ids = Some [], d2Ids = Some [''X''],
           elementLabels = None \<rparr>],
        [\<lparr> from = [''Logging'', ''Misc''], to = ''Operations'' \<rparr>])
   \<and> \<lparr> label = ''Logging'', description = ''d1'', d1Ids = Some [''C''], d2Ids = Some [],
        elementLabels = None \<rparr>
       \<notin> set (fst (reconcile scenarioConcepts \<lparr> merges = Some [ghostGroup, miscGroup] \<rparr>))"
  by (simp add: merge_eval)

subsection \<open>Disjointness of the id sets\<close>

text \<open>
  Claim C4. When the D1 id lists of the input concepts are pairwise disjoint, and so are
  their D2 id lists, the same holds of the concepts of the output, for every list of
  proposed groups.
\<close>

theorem reconcile_keeps_disjoint:
  assumes p1: "pairwiseDisjoint (map (\<lambda>c. orEmpty (d1Ids c)) concepts)"
    and p2: "pairwiseDisjoint (map (\<lambda>c. orEmpty (d2Ids c)) concepts)"
  shows "pairwiseDisjoint (map (\<lambda>c. orEmpty (d1Ids c)) (fst (reconcile concepts parsed)))
       \<and> pairwiseDisjoint (map (\<lambda>c. orEmpty (d2Ids c)) (fst (reconcile concepts parsed)))"
proof
  show "pairwiseDisjoint (map (\<lambda>c. orEmpty (d1Ids c)) (fst (reconcile concepts parsed)))"
    unfolding pairwiseDisjoint_iff
  proof
    fix x
    have "sum_list (map (\<lambda>c. holds x (orEmpty (d1Ids c))) (fst (reconcile concepts parsed)))
          \<le> sum_list (map (\<lambda>c. holds x (orEmpty (d1Ids c))) concepts)"
    proof (rule reconcile_weight_le)
      fix m V
      have "holds x (orEmpty (d1Ids (mergedConcept m V)))
            = holds x (concat (map (\<lambda>c. orEmpty (d1Ids c)) V))"
        by (simp add: mergedConcept_def holds_def orEmpty_def)
      then show "holds x (orEmpty (d1Ids (mergedConcept m V)))
                 \<le> sum_list (map (\<lambda>c. holds x (orEmpty (d1Ids c))) V)"
        using holds_concat_le[of x "\<lambda>c. orEmpty (d1Ids c)" V] by simp
    qed
    also have "\<dots> \<le> 1" using p1 unfolding pairwiseDisjoint_iff by (simp add: comp_def)
    finally show "sum_list (map (holds x) (map (\<lambda>c. orEmpty (d1Ids c))
                    (fst (reconcile concepts parsed)))) \<le> 1"
      by (simp add: comp_def)
  qed
  show "pairwiseDisjoint (map (\<lambda>c. orEmpty (d2Ids c)) (fst (reconcile concepts parsed)))"
    unfolding pairwiseDisjoint_iff
  proof
    fix x
    have "sum_list (map (\<lambda>c. holds x (orEmpty (d2Ids c))) (fst (reconcile concepts parsed)))
          \<le> sum_list (map (\<lambda>c. holds x (orEmpty (d2Ids c))) concepts)"
    proof (rule reconcile_weight_le)
      fix m V
      have "holds x (orEmpty (d2Ids (mergedConcept m V)))
            = holds x (concat (map (\<lambda>c. orEmpty (d2Ids c)) V))"
        by (simp add: mergedConcept_def holds_def orEmpty_def)
      then show "holds x (orEmpty (d2Ids (mergedConcept m V)))
                 \<le> sum_list (map (\<lambda>c. holds x (orEmpty (d2Ids c))) V)"
        using holds_concat_le[of x "\<lambda>c. orEmpty (d2Ids c)" V] by simp
    qed
    also have "\<dots> \<le> 1" using p2 unfolding pairwiseDisjoint_iff by (simp add: comp_def)
    finally show "sum_list (map (holds x) (map (\<lambda>c. orEmpty (d2Ids c))
                    (fst (reconcile concepts parsed)))) \<le> 1"
      by (simp add: comp_def)
  qed
qed

theorem reconcile_keeps_disjoint_witness:
  "pairwiseDisjoint (map (\<lambda>c. orEmpty (d1Ids c)) scenarioConcepts)
   \<and> pairwiseDisjoint (map (\<lambda>c. orEmpty (d2Ids c)) scenarioConcepts)
   \<and> pairwiseDisjoint (map (\<lambda>c. orEmpty (d1Ids c))
        (fst (reconcile scenarioConcepts \<lparr> merges = Some [authGroup, lateGroup] \<rparr>)))
   \<and> pairwiseDisjoint (map (\<lambda>c. orEmpty (d2Ids c))
        (fst (reconcile scenarioConcepts \<lparr> merges = Some [authGroup, lateGroup] \<rparr>)))"
proof -
  have h1: "pairwiseDisjoint (map (\<lambda>c. orEmpty (d1Ids c)) scenarioConcepts)"
    by (simp add: merge_eval)
  have h2: "pairwiseDisjoint (map (\<lambda>c. orEmpty (d2Ids c)) scenarioConcepts)"
    by (simp add: merge_eval)
  from reconcile_keeps_disjoint [OF h1 h2, of "\<lparr> merges = Some [authGroup, lateGroup] \<rparr>"] h1 h2
  show ?thesis by simp
qed

subsection \<open>A reply without merges\<close>

text \<open>
  Claim C10. When the parsed reply has no \<open>merges\<close> field, or an empty one, the output
  concept list is the input concept list, in the same order, and the merge log is empty.
\<close>

theorem reconcile_no_merges_identity:
  "reconcile concepts \<lparr> merges = None \<rparr> = (concepts, [])
   \<and> reconcile concepts \<lparr> merges = Some [] \<rparr> = (concepts, [])"
  by (simp add: reconcile_def orEmpty_def passThrough_def)

theorem reconcile_no_merges_identity_witness:
  "reconcile scenarioConcepts \<lparr> merges = None \<rparr> = (scenarioConcepts, [])
   \<and> reconcile scenarioConcepts \<lparr> merges = Some [] \<rparr> = (scenarioConcepts, [])"
  using reconcile_no_merges_identity [of scenarioConcepts] by simp

section \<open>Properties of the reply parser\<close>

subsection \<open>Where the braces are\<close>

lemma takeWhile_neq_append:
  "c \<notin> set p \<Longrightarrow> takeWhile (\<lambda>x. x \<noteq> c) (p @ c # r) = p"
  by (induction p) auto

lemma length_takeWhile_neq_less:
  "c \<in> set xs \<Longrightarrow> length (takeWhile (\<lambda>x. x \<noteq> c) xs) < length xs"
  by (induction xs) auto

lemma split_at_first:
  "c \<in> set xs \<Longrightarrow> xs = takeWhile (\<lambda>x. x \<noteq> c) xs @ c # tl (dropWhile (\<lambda>x. x \<noteq> c) xs)"
  by (induction xs) auto

lemma indexOf_first:
  "c \<notin> set p \<Longrightarrow> indexOf (p @ c # r) c = int (length p)"
  by (simp add: indexOf_def takeWhile_neq_append)

lemma lastIndexOf_last:
  assumes "c \<notin> set s"
  shows "lastIndexOf (r @ c # s) c = int (length r)"
proof -
  have "takeWhile (\<lambda>x. x \<noteq> c) (rev (r @ c # s)) = rev s"
    using takeWhile_neq_append[of c "rev s" "rev r"] assms by simp
  then show ?thesis by (simp add: lastIndexOf_def)
qed

lemma slice_middle:
  "slice (p @ j @ s) (int (length p)) (int (length p + length j)) = j"
  by (simp add: slice_def Let_def min_def nat_add_distrib)

lemma braced_shape:
  assumes "j \<noteq> []" "hd j = CHR ''{''" "last j = CHR ''}''"
  shows "\<exists>b. j = CHR ''{'' # b @ [CHR ''}'']"
proof -
  from assms(1,2) obtain t where t: "j = CHR ''{'' # t" by (cases j) auto
  with assms(3) have "t \<noteq> []" by (cases t) auto
  with t assms(3) have "t = butlast t @ [CHR ''}'']" by (metis append_butlast_last_id last_ConsR)
  with t show ?thesis by blast
qed

lemma recovery_wrapped:
  assumes j: "j \<noteq> []" "hd j = CHR ''{''" "last j = CHR ''}''"
    and p: "CHR ''{'' \<notin> set prefix" and s: "CHR ''}'' \<notin> set suffix"
    and direct: "JSON_parse (prefix @ j @ suffix) = None"
  shows "parseWithRecovery msg (prefix @ j @ suffix)
         = (case JSON_parse j of Some v \<Rightarrow> Inr v | None \<Rightarrow> Inl SyntaxError)"
proof -
  from braced_shape[OF j] obtain b where b: "j = CHR ''{'' # b @ [CHR ''}'']" by blast
  have f: "indexOf (prefix @ j @ suffix) (CHR ''{'') = int (length prefix)"
    using indexOf_first[OF p, of "b @ [CHR ''}''] @ suffix"] b by simp
  have "lastIndexOf ((prefix @ CHR ''{'' # b) @ CHR ''}'' # suffix) (CHR ''}'') = int (length (prefix @ CHR ''{'' # b))"
    by (rule lastIndexOf_last[OF s])
  then have l: "lastIndexOf (prefix @ j @ suffix) (CHR ''}'') = int (length prefix + length j) - 1"
    using b by simp
  have gt: "lastIndexOf (prefix @ j @ suffix) (CHR ''}'') > indexOf (prefix @ j @ suffix) (CHR ''{'')"
    using f l b by simp
  have sl: "slice (prefix @ j @ suffix) (indexOf (prefix @ j @ suffix) (CHR ''{''))
              (lastIndexOf (prefix @ j @ suffix) (CHR ''}'') + 1) = j"
    using slice_middle[of prefix j suffix] f l by simp
  show ?thesis
    unfolding parseWithRecovery_def Let_def direct using gt sl f by simp
qed

lemma recovery_bare:
  assumes j: "j \<noteq> []" "hd j = CHR ''{''" "last j = CHR ''}''"
  shows "parseWithRecovery msg j = (case JSON_parse j of Some v \<Rightarrow> Inr v | None \<Rightarrow> Inl SyntaxError)"
proof (cases "JSON_parse j")
  case (Some v)
  then show ?thesis by (simp add: parseWithRecovery_def)
next
  case None
  from recovery_wrapped[OF j, of "[]" "[]" msg] None show ?thesis by simp
qed

lemma last_occurrence:
  assumes "c \<in> set s"
  shows "nat (lastIndexOf s c) < length s \<and> s ! nat (lastIndexOf s c) = c \<and> 0 \<le> lastIndexOf s c"
proof -
  let ?n = "length (takeWhile (\<lambda>x. x \<noteq> c) (rev s))"
  from assms have "c \<in> set (rev s)" by simp
  then have lt: "?n < length (rev s)" by (rule length_takeWhile_neq_less)
  then have "\<not> (rev s ! ?n \<noteq> c)" by (rule nth_length_takeWhile)
  then have "rev s ! ?n = c" by simp
  moreover from lt have "rev s ! ?n = s ! (length s - Suc ?n)" by (simp add: rev_nth)
  ultimately have "s ! (length s - Suc ?n) = c" by simp
  moreover have "nat (lastIndexOf s c) = length s - Suc ?n" using assms lt by (simp add: lastIndexOf_def nat_diff_distrib')
  moreover have "0 \<le> lastIndexOf s c" using assms lt by (simp add: lastIndexOf_def)
  ultimately show ?thesis using lt by simp
qed

lemma brace_pair_split:
  assumes f: "indexOf raw (CHR ''{'') \<noteq> - 1"
    and g: "lastIndexOf raw (CHR ''}'') > indexOf raw (CHR ''{'')"
  shows "\<exists>a b c. raw = a @ CHR ''{'' # b @ CHR ''}'' # c"
proof -
  let ?a = "takeWhile (\<lambda>x. x \<noteq> CHR ''{'') raw"
  from f have inb: "CHR ''{'' \<in> set raw" by (auto simp: indexOf_def split: if_splits)
  then have i: "indexOf raw (CHR ''{'') = int (length ?a)" by (simp add: indexOf_def)
  from split_at_first[OF inb] obtain rest where rest: "raw = ?a @ CHR ''{'' # rest" by blast
  from g i have "lastIndexOf raw (CHR ''}'') \<noteq> - 1" by simp
  then have inc: "CHR ''}'' \<in> set raw" by (auto simp: lastIndexOf_def split: if_splits)
  let ?k = "nat (lastIndexOf raw (CHR ''}''))"
  from last_occurrence[OF inc] have k: "?k < length raw" "raw ! ?k = CHR ''}''" "0 \<le> lastIndexOf raw (CHR ''}'')" by simp_all
  from g i k(3) have ka: "length ?a < ?k" by simp
  from k(1,2) id_take_nth_drop[of ?k raw]
  have "raw = take ?k raw @ CHR ''}'' # drop (Suc ?k) raw" by simp
  moreover have "take ?k raw = ?a @ CHR ''{'' # take (?k - Suc (length ?a)) rest"
  proof -
    have "take ?k (?a @ CHR ''{'' # rest) = ?a @ CHR ''{'' # take (?k - Suc (length ?a)) rest"
      using ka by (simp add: take_Cons' )
    with rest show ?thesis by simp
  qed
  ultimately have "raw = ?a @ CHR ''{'' # take (?k - Suc (length ?a)) rest @ CHR ''}'' # drop (Suc ?k) raw"
    by simp
  then show ?thesis by blast
qed

lemma recovery_no_braces:
  assumes nb: "\<not> (\<exists>a b c. raw = a @ CHR ''{'' # b @ CHR ''}'' # c)"
    and direct: "JSON_parse raw = None"
  shows "parseWithRecovery msg raw = Inl (Error msg)"
proof -
  from nb brace_pair_split[of raw]
  have "\<not> (indexOf raw (CHR ''{'') \<noteq> - 1 \<and> lastIndexOf raw (CHR ''}'') > indexOf raw (CHR ''{''))" by blast
  then show ?thesis unfolding parseWithRecovery_def Let_def direct by auto
qed

lemma dropWhile_keeps_later:
  "x \<in> set r \<Longrightarrow> x \<in> set (dropWhile (\<lambda>y. y \<noteq> c) (a @ c # r))"
  by (induction a) auto

lemma brace_pair_hasBracePair:
  assumes "indexOf raw (CHR ''{'') \<noteq> - 1"
    and "lastIndexOf raw (CHR ''}'') > indexOf raw (CHR ''{'')"
  shows "hasBracePair raw"
proof -
  from brace_pair_split[OF assms] obtain a b c where "raw = a @ CHR ''{'' # b @ CHR ''}'' # c"
    by blast
  then show ?thesis
    using dropWhile_keeps_later[of "CHR ''}''" "b @ CHR ''}'' # c" "CHR ''{''" a]
    by (simp add: hasBracePair_def)
qed

lemma recovery_no_brace_pair:
  assumes nb: "\<not> hasBracePair raw" and direct: "JSON_parse raw = None"
  shows "parseWithRecovery msg raw = Inl (Error msg)"
proof -
  from nb brace_pair_hasBracePair[of raw]
  have "\<not> (indexOf raw (CHR ''{'') \<noteq> - 1
            \<and> lastIndexOf raw (CHR ''}'') > indexOf raw (CHR ''{''))" by blast
  then show ?thesis unfolding parseWithRecovery_def Let_def direct by auto
qed

subsection \<open>Evaluation of the parser on concrete texts\<close>

lemmas json_eval = JSON_parse_def startValue_def isWhitespace_def isDigit_def isDigit19_def
  hexValue_def escapeValue_def arrayIndex_def precedes_def Let_def

lemmas recovery_eval = extractorParse_def mergerParse_def parseWithRecovery_def indexOf_def
  lastIndexOf_def slice_def hasBracePair_def Let_def

lemmas extract_eval = extractConcepts_def rawTextOf_def objGet_def numberIsZero_def
  digitValue_def decimalValue_def isExponentMark_def exponentValue_def

text \<open>
  Of two members with one name the last value stays, at the place of the first; names that
  are array indices come first.
\<close>

lemma JSON_parse_repeated_name:
  \<open>JSON_parse ''{"a":1,"b":2,"a":3}''
     = Some (JObject [(map of_char ''a'', JNumber ''3''), (map of_char ''b'', JNumber ''2'')])\<close>
  by (simp add: json_eval)

lemma JSON_parse_index_names:
  \<open>JSON_parse ''{"b":1,"10":2,"9":3,"01":4}''
     = Some (JObject [(map of_char ''9'', JNumber ''3''), (map of_char ''10'', JNumber ''2''),
                      (map of_char ''b'', JNumber ''1''), (map of_char ''01'', JNumber ''4'')])\<close>
  by (simp add: json_eval)

text \<open>Numbers that are zero as doubles, and numbers that are not.\<close>

lemma numberIsZero_examples:
  "numberIsZero ''0''" "numberIsZero ''-0.00e5''" "numberIsZero ''1e-400''"
  "numberIsZero ''2e-324''" "\<not> numberIsZero ''3e-324''" "\<not> numberIsZero ''0.5''"
  "\<not> numberIsZero ''10''" "\<not> numberIsZero ''-1E+2''"
  by (simp_all add: extract_eval)

text \<open>
  A concept whose label is an object with a member \<open>toString\<close> makes the log line throw,
  and the response is a failure.
\<close>

lemma extract_label_not_a_string:
  \<open>extractConcepts (Responded \<lparr> ok = True, status = 200,
        body = BodyText (Some ''{"concepts":[{"label":{"toString":1},"elementIds":[]}]}'') \<rparr>)
     = ExtractFailure TypeError\<close>
  by (simp add: json_eval recovery_eval extract_eval)

lemma extract_falsy_concepts:
  \<open>extractConcepts (Responded \<lparr> ok = True, status = 200,
        body = BodyText (Some ''{"concepts":1e-400}'') \<rparr>)
     = ExtractSuccess (JArray [])\<close>
  by (simp add: json_eval recovery_eval extract_eval)

subsection \<open>Recovery from text around the JSON\<close>

text \<open>
  Claim C5, as amended. The claim is stated for every reply \<open>prefix + j + suffix\<close> with no
  \<open>{\<close> in the prefix and no \<open>}\<close> in the suffix. The recovery runs only when
  \<open>JSON.parse\<close> of the whole reply throws: a reply that is itself JSON, such as the object
  inside an array, is taken as it is (\<open>recovery_skipped_when_reply_parses\<close> below). What
  holds: when \<open>j\<close> begins with \<open>{\<close> and ends with \<open>}\<close>, the prefix has no \<open>{\<close>, the
  suffix has no \<open>}\<close> and the whole reply does not parse, the parser of the extractor and
  the parser of the merger give for the reply what they give for \<open>j\<close> alone, the parsed
  value of \<open>j\<close> when \<open>j\<close> is valid JSON; and when the reply does not parse and has no \<open>{\<close>
  with a \<open>}\<close> after it, both fail with their error.
\<close>

theorem recovery_between_braces:
  "(j \<noteq> [] \<and> hd j = CHR ''{'' \<and> last j = CHR ''}''
      \<and> CHR ''{'' \<notin> set prefix \<and> CHR ''}'' \<notin> set suffix
      \<and> JSON_parse (prefix @ j @ suffix) = None
    \<longrightarrow> extractorParse (prefix @ j @ suffix) = extractorParse j
        \<and> mergerParse (prefix @ j @ suffix) = mergerParse j
        \<and> (\<forall>v. JSON_parse j = Some v
               \<longrightarrow> extractorParse (prefix @ j @ suffix) = Inr v
                   \<and> mergerParse (prefix @ j @ suffix) = Inr v))
   \<and> (\<not> hasBracePair raw \<and> JSON_parse raw = None
    \<longrightarrow> extractorParse raw = Inl (Error ''Failed to parse JSON from LLM response'')
        \<and> mergerParse raw = Inl (Error ''Could not parse JSON from LLM response''))"
proof (intro conjI impI)
  assume h: "j \<noteq> [] \<and> hd j = CHR ''{'' \<and> last j = CHR ''}''
      \<and> CHR ''{'' \<notin> set prefix \<and> CHR ''}'' \<notin> set suffix
      \<and> JSON_parse (prefix @ j @ suffix) = None"
  then have j: "j \<noteq> []" "hd j = CHR ''{''" "last j = CHR ''}''"
    and p: "CHR ''{'' \<notin> set prefix" and s: "CHR ''}'' \<notin> set suffix"
    and d: "JSON_parse (prefix @ j @ suffix) = None" by simp_all
  show "extractorParse (prefix @ j @ suffix) = extractorParse j"
    unfolding extractorParse_def by (simp only: recovery_wrapped[OF j p s d] recovery_bare[OF j])
  show "mergerParse (prefix @ j @ suffix) = mergerParse j"
    unfolding mergerParse_def by (simp only: recovery_wrapped[OF j p s d] recovery_bare[OF j])
  show "\<forall>v. JSON_parse j = Some v
          \<longrightarrow> extractorParse (prefix @ j @ suffix) = Inr v
              \<and> mergerParse (prefix @ j @ suffix) = Inr v"
    unfolding extractorParse_def mergerParse_def by (simp add: recovery_wrapped[OF j p s d])
next
  assume h: "\<not> hasBracePair raw \<and> JSON_parse raw = None"
  then have nb: "\<not> hasBracePair raw" and d: "JSON_parse raw = None" by simp_all
  show "extractorParse raw = Inl (Error ''Failed to parse JSON from LLM response'')"
    unfolding extractorParse_def by (rule recovery_no_brace_pair[OF nb d])
  show "mergerParse raw = Inl (Error ''Could not parse JSON from LLM response'')"
    unfolding mergerParse_def by (rule recovery_no_brace_pair[OF nb d])
qed

text \<open>
  A reply with prose around the object, and a reply with no JSON at all.
\<close>

theorem recovery_between_braces_witness:
  \<open>JSON_parse (''Sure, here you go: '' @ ''{"merges":[]}'' @ '' Done.'') = None
   \<and> extractorParse (''Sure, here you go: '' @ ''{"merges":[]}'' @ '' Done.'')
       = Inr (JObject [(map of_char ''merges'', JArray [])])
   \<and> mergerParse (''Sure, here you go: '' @ ''{"merges":[]}'' @ '' Done.'')
       = Inr (JObject [(map of_char ''merges'', JArray [])])
   \<and> \<not> hasBracePair ''I cannot answer that.''
   \<and> JSON_parse ''I cannot answer that.'' = None
   \<and> extractorParse ''I cannot answer that.''
       = Inl (Error ''Failed to parse JSON from LLM response'')
   \<and> mergerParse ''I cannot answer that.''
       = Inl (Error ''Could not parse JSON from LLM response'')\<close>
proof -
  have h1: \<open>''{"merges":[]}'' \<noteq> [] \<and> hd ''{"merges":[]}'' = CHR ''{''
            \<and> last ''{"merges":[]}'' = CHR ''}''
            \<and> CHR ''{'' \<notin> set ''Sure, here you go: '' \<and> CHR ''}'' \<notin> set '' Done.''\<close>
    by simp
  have h2: \<open>JSON_parse (''Sure, here you go: '' @ ''{"merges":[]}'' @ '' Done.'') = None\<close>
    by (simp add: json_eval)
  have h3: \<open>JSON_parse ''{"merges":[]}'' = Some (JObject [(map of_char ''merges'', JArray [])])\<close>
    by (simp add: json_eval)
  have h4: "\<not> hasBracePair ''I cannot answer that.''" by (simp add: hasBracePair_def)
  have h5: "JSON_parse ''I cannot answer that.'' = None" by (simp add: json_eval)
  from recovery_between_braces
         [of \<open>''{"merges":[]}''\<close> "''Sure, here you go: ''" "'' Done.''" "''I cannot answer that.''"]
       h1 h2 h3 h4 h5
  show ?thesis by blast
qed

text \<open>
  The claim as stated fails: with the prefix \<open>[\<close> and the suffix \<open>]\<close> the whole reply is
  JSON, an array; no recovery takes place and both parsers return the array, not the
  object that \<open>j\<close> alone gives.
\<close>

theorem recovery_skipped_when_reply_parses:
  \<open>CHR ''{'' \<notin> set ''['' \<and> CHR ''}'' \<notin> set '']''
   \<and> JSON_parse ''{"merges":[]}'' = Some (JObject [(map of_char ''merges'', JArray [])])
   \<and> extractorParse ''{"merges":[]}'' = Inr (JObject [(map of_char ''merges'', JArray [])])
   \<and> mergerParse ''{"merges":[]}'' = Inr (JObject [(map of_char ''merges'', JArray [])])
   \<and> extractorParse (''['' @ ''{"merges":[]}'' @ '']'')
       = Inr (JArray [JObject [(map of_char ''merges'', JArray [])]])
   \<and> mergerParse (''['' @ ''{"merges":[]}'' @ '']'')
       = Inr (JArray [JObject [(map of_char ''merges'', JArray [])]])
   \<and> extractorParse (''['' @ ''{"merges":[]}'' @ '']'') \<noteq> extractorParse ''{"merges":[]}''
   \<and> mergerParse (''['' @ ''{"merges":[]}'' @ '']'') \<noteq> mergerParse ''{"merges":[]}''\<close>
  by (simp add: json_eval recovery_eval)

subsection \<open>A reply that cannot be parsed\<close>

text \<open>
  Claim C3, as amended. The claim says that no unparseable or empty reply becomes a
  successful response with an empty concept set. The code replaces an absent or empty
  reply text by \<open>"{}"\<close> before parsing (\<open>text || "{}"\<close>) and reads the concepts of such an
  object as the empty list (\<open>parsed.concepts || []\<close>): the empty reply gives a successful
  response with no concepts (\<open>extract_empty_reply_succeeds\<close> below). What holds: for
  every reply text that is not empty and cannot be parsed, not even between its braces,
  the response is the failure carrying the error of the parser; a successful response
  carries the concepts read from a reply that was parsed; and an absent or empty reply
  text gives the successful response with the empty concept list.
\<close>

theorem extract_unparseable_reply_fails:
  "(reply \<noteq> [] \<and> extractorParse reply = Inl e
    \<longrightarrow> extractConcepts (Responded \<lparr> ok = True, status = code, body = BodyText (Some reply) \<rparr>)
        = ExtractFailure e)
   \<and> (extractConcepts outcome = ExtractSuccess concepts
    \<longrightarrow> (\<exists>response t parsed. outcome = Responded response \<and> ok response
            \<and> body response = BodyText t
            \<and> extractorParse (rawTextOf t) = Inr parsed \<and> conceptsOf parsed = Inr concepts))
   \<and> extractConcepts (Responded \<lparr> ok = True, status = code, body = BodyText (Some []) \<rparr>)
        = ExtractSuccess (JArray [])
   \<and> extractConcepts (Responded \<lparr> ok = True, status = code, body = BodyText None \<rparr>)
        = ExtractSuccess (JArray [])"
proof (intro conjI impI)
  assume "reply \<noteq> [] \<and> extractorParse reply = Inl e"
  then show "extractConcepts (Responded \<lparr> ok = True, status = code, body = BodyText (Some reply) \<rparr>)
        = ExtractFailure e"
    by (simp add: extractConcepts_def rawTextOf_def)
next
  assume s: "extractConcepts outcome = ExtractSuccess concepts"
  show "\<exists>response t parsed. outcome = Responded response \<and> ok response
            \<and> body response = BodyText t
            \<and> extractorParse (rawTextOf t) = Inr parsed \<and> conceptsOf parsed = Inr concepts"
  proof (cases outcome)
    case (FetchRejected x)
    with s show ?thesis by (simp add: extractConcepts_def)
  next
    case (Responded response)
    with s show ?thesis
      by (auto simp: extractConcepts_def split: if_splits geminiBody.splits sum.splits)
  qed
next
  have e: "extractorParse ''{}'' = Inr (JObject [])" by (simp add: json_eval recovery_eval)
  show "extractConcepts (Responded \<lparr> ok = True, status = code, body = BodyText (Some []) \<rparr>)
        = ExtractSuccess (JArray [])"
    by (simp add: extractConcepts_def rawTextOf_def e objGet_def)
  show "extractConcepts (Responded \<lparr> ok = True, status = code, body = BodyText None \<rparr>)
        = ExtractSuccess (JArray [])"
    by (simp add: extractConcepts_def rawTextOf_def e objGet_def)
qed

text \<open>
  A reply in prose fails the extraction; a reply with one concept succeeds with it.
\<close>

theorem extract_unparseable_reply_fails_witness:
  \<open>''I cannot answer that.'' \<noteq> []
   \<and> extractorParse ''I cannot answer that.''
       = Inl (Error ''Failed to parse JSON from LLM response'')
   \<and> extractConcepts (Responded \<lparr> ok = True, status = 200,
                                   body = BodyText (Some ''I cannot answer that.'') \<rparr>)
       = ExtractFailure (Error ''Failed to parse JSON from LLM response'')
   \<and> extractConcepts (Responded \<lparr> ok = True, status = 200,
        body = BodyText (Some ''{"concepts":[{"label":"Auth","elementIds":["A"]}]}'') \<rparr>)
       = ExtractSuccess (JArray [JObject [(map of_char ''label'', JString (map of_char ''Auth'')),
                                          (map of_char ''elementIds'', JArray [JString (map of_char ''A'')])]])
   \<and> (\<exists>response t parsed.
         Responded \<lparr> ok = True, status = 200,
           body = BodyText (Some ''{"concepts":[{"label":"Auth","elementIds":["A"]}]}'') \<rparr>
           = Responded response
         \<and> ok response \<and> body response = BodyText t
         \<and> extractorParse (rawTextOf t) = Inr parsed
         \<and> conceptsOf parsed
             = Inr (JArray [JObject [(map of_char ''label'', JString (map of_char ''Auth'')),
                                     (map of_char ''elementIds'', JArray [JString (map of_char ''A'')])]]))\<close>
proof -
  have h1: "''I cannot answer that.'' \<noteq> []" by simp
  have h2: "extractorParse ''I cannot answer that.''
              = Inl (Error ''Failed to parse JSON from LLM response'')"
    by (simp add: json_eval recovery_eval)
  have h3: \<open>extractConcepts (Responded \<lparr> ok = True, status = 200,
        body = BodyText (Some ''{"concepts":[{"label":"Auth","elementIds":["A"]}]}'') \<rparr>)
       = ExtractSuccess (JArray [JObject [(map of_char ''label'', JString (map of_char ''Auth'')),
                                          (map of_char ''elementIds'', JArray [JString (map of_char ''A'')])]])\<close>
    by (simp add: json_eval recovery_eval extract_eval)
  from extract_unparseable_reply_fails
         [of "''I cannot answer that.''" "Error ''Failed to parse JSON from LLM response''" 200
             \<open>Responded \<lparr> ok = True, status = 200,
                body = BodyText (Some ''{"concepts":[{"label":"Auth","elementIds":["A"]}]}'') \<rparr>\<close>
             \<open>JArray [JObject [(map of_char ''label'', JString (map of_char ''Auth'')),
                              (map of_char ''elementIds'', JArray [JString (map of_char ''A'')])]]\<close>]
       h1 h2 h3
  show ?thesis by blast
qed

text \<open>
  The claim as stated fails: the empty reply does not parse and has no braces, and the
  response is a success with the empty concept list.
\<close>

theorem extract_empty_reply_succeeds:
  "JSON_parse [] = None
   \<and> extractorParse [] = Inl (Error ''Failed to parse JSON from LLM response'')
   \<and> extractConcepts (Responded \<lparr> ok = True, status = 200, body = BodyText (Some []) \<rparr>)
       = ExtractSuccess (JArray [])"
  by (simp add: json_eval recovery_eval extract_eval)

section \<open>Properties of the orchestrator\<close>

subsection \<open>Histories and what the loops add to them\<close>

lemma proj_append [simp]: "proj f (a @ b) = proj f a @ proj f b"
  by (simp add: proj_def)

lemma proj_Nil [simp]: "proj f [] = []"
  by (simp add: proj_def)

lemma proj_Cons [simp]: "proj f (e # h) = f e @ proj f h"
  by (simp add: proj_def)

lemma proj_ignored: "(\<And>e. e \<in> set new \<Longrightarrow> f e = []) \<Longrightarrow> proj f new = []"
  by (induction new) auto

lemma createElementNodes_adds:
  "\<exists>new. createElementNodes env mkArgs tag es h = h @ new
         \<and> (\<forall>e \<in> set new. (\<exists>a r. e = Rpc (UpsertNode a) r) \<or> (\<exists>t. e = ConsoleError t))"
proof (induction es arbitrary: h)
  case Nil show ?case by simp
next
  case (Cons x es)
  let ?r = "rpcReply env h (UpsertNode (mkArgs x))"
  let ?h1 = "h @ [Rpc (UpsertNode (mkArgs x)) ?r]"
  let ?h2 = "if rpc_error ?r \<noteq> None then ?h1 @ [ConsoleError tag] else ?h1"
  from Cons[of ?h2] obtain new where
    n: "createElementNodes env mkArgs tag es ?h2 = ?h2 @ new"
       "\<forall>e \<in> set new. (\<exists>a r. e = Rpc (UpsertNode a) r) \<or> (\<exists>t. e = ConsoleError t)" by blast
  show ?case
  proof (cases "rpc_error ?r \<noteq> None")
    case True
    show ?thesis
      apply (rule exI[of _ "Rpc (UpsertNode (mkArgs x)) ?r # ConsoleError tag # new"])
      using n True by (simp add: rpcCall_def Let_def)
  next
    case False
    show ?thesis
      apply (rule exI[of _ "Rpc (UpsertNode (mkArgs x)) ?r # new"])
      using n False by (simp add: rpcCall_def Let_def)
  qed
qed

lemma createEdges_adds:
  "\<exists>new. snd (createEdges env allNodes target ty ids h) = h @ new
         \<and> (\<forall>e \<in> set new. \<exists>a r. e = Rpc (InsertEdge a) r)"
proof (induction ids arbitrary: h)
  case Nil show ?case by simp
next
  case (Cons i ids)
  show ?case
  proof (cases "findNode allNodes i")
    case (Inl msg)
    then show ?thesis by simp
  next
    case (Inr found)
    show ?thesis
    proof (cases found)
      case None
      with Inr Cons[of h] show ?thesis by simp
    next
      case (Some n)
      let ?a = "\<lparr> p_source_node_id = node_id n, p_target_node_id = target, p_edge_type = ty, p_edge_label = ty \<rparr>"
      let ?h1 = "h @ [Rpc (InsertEdge ?a) (rpcReply env h (InsertEdge ?a))]"
      from Cons[of ?h1] obtain new where
        n: "snd (createEdges env allNodes target ty ids ?h1) = ?h1 @ new"
           "\<forall>e \<in> set new. \<exists>a r. e = Rpc (InsertEdge a) r" by blast
      show ?thesis
        apply (rule exI[of _ "Rpc (InsertEdge ?a) (rpcReply env h (InsertEdge ?a)) # new"])
        using n Inr Some by (simp add: rpcCall_def Let_def)
    qed
  qed
qed

lemma progress_createEdges:
  "createEdges env allNodes target ty ids h = (res, h') \<Longrightarrow> proj progressOf h' = proj progressOf h"
proof -
  assume c: "createEdges env allNodes target ty ids h = (res, h')"
  from createEdges_adds[of env allNodes target ty ids h] c obtain new where
    n: "h' = h @ new" "\<forall>e \<in> set new. \<exists>a r. e = Rpc (InsertEdge a) r" by auto
  have "proj progressOf new = []" by (rule proj_ignored) (use n(2) in auto)
  with n(1) show ?thesis by simp
qed

lemma progress_createMergedNodes:
  "createMergedNodes env allNodes cs h = (res, h') \<Longrightarrow> proj progressOf h' = proj progressOf h"
proof (induction cs arbitrary: h)
  case Nil then show ?case by simp
next
  case (Cons c cs)
  let ?r = "rpcReply env h (UpsertNode (mergedNodeArgs c))"
  let ?h1 = "h @ [Rpc (UpsertNode (mergedNodeArgs c)) ?r]"
  have p1: "proj progressOf ?h1 = proj progressOf h" by simp
  show ?case
  proof (cases "conceptNodeId ?r")
    case None
    with Cons.prems have "createMergedNodes env allNodes cs ?h1 = (res, h')"
      by (simp add: rpcCall_def Let_def)
    from Cons.IH[OF this] p1 show ?thesis by simp
  next
    case (Some t)
    obtain r1 h2 where e1: "createEdges env allNodes t ''defines'' (mc_d1Ids c) ?h1 = (r1, h2)"
      by (cases "createEdges env allNodes t ''defines'' (mc_d1Ids c) ?h1")
    from progress_createEdges[OF e1] p1 have p2: "proj progressOf h2 = proj progressOf h" by simp
    show ?thesis
    proof (cases r1)
      case (Inl msg)
      with Cons.prems Some e1 have "h' = h2" by (simp add: rpcCall_def Let_def)
      with p2 show ?thesis by simp
    next
      case (Inr u)
      obtain r2 h3 where e2: "createEdges env allNodes t ''implements'' (mc_d2Ids c) h2 = (r2, h3)"
        by (cases "createEdges env allNodes t ''implements'' (mc_d2Ids c) h2")
      from progress_createEdges[OF e2] p2 have p3: "proj progressOf h3 = proj progressOf h" by simp
      show ?thesis
      proof (cases r2)
        case (Inl msg)
        with Cons.prems Some e1 Inr e2 have "h' = h3" by (simp add: rpcCall_def Let_def)
        with p3 show ?thesis by simp
      next
        case (Inr u')
        with Cons.prems Some e1 \<open>r1 = Inr u\<close> e2
        have "createMergedNodes env allNodes cs h3 = (res, h')" by (simp add: rpcCall_def Let_def)
        from Cons.IH[OF this] p3 show ?thesis by simp
      qed
    qed
  qed
qed

lemma progress_createUnmergedNodes:
  "createUnmergedNodes env allNodes mk ty cs h = (res, h') \<Longrightarrow> proj progressOf h' = proj progressOf h"
proof (induction cs arbitrary: h)
  case Nil then show ?case by simp
next
  case (Cons c cs)
  let ?r = "rpcReply env h (UpsertNode (mk c))"
  let ?h1 = "h @ [Rpc (UpsertNode (mk c)) ?r]"
  have p1: "proj progressOf ?h1 = proj progressOf h" by simp
  show ?case
  proof (cases "conceptNodeId ?r")
    case None
    with Cons.prems have "createUnmergedNodes env allNodes mk ty cs ?h1 = (res, h')"
      by (simp add: rpcCall_def Let_def)
    from Cons.IH[OF this] p1 show ?thesis by simp
  next
    case (Some t)
    obtain r1 h2 where e1: "createEdges env allNodes t ty (c_elementIds c) ?h1 = (r1, h2)"
      by (cases "createEdges env allNodes t ty (c_elementIds c) ?h1")
    from progress_createEdges[OF e1] p1 have p2: "proj progressOf h2 = proj progressOf h" by simp
    show ?thesis
    proof (cases r1)
      case (Inl msg)
      with Cons.prems Some e1 have "h' = h2" by (simp add: rpcCall_def Let_def)
      with p2 show ?thesis by simp
    next
      case (Inr u)
      with Cons.prems Some e1
      have "createUnmergedNodes env allNodes mk ty cs h2 = (res, h')" by (simp add: rpcCall_def Let_def)
      from Cons.IH[OF this] p2 show ?thesis by simp
    qed
  qed
qed

lemma progress_createElementNodes [simp]:
  "proj progressOf (createElementNodes env mkArgs tag es h) = proj progressOf h"
proof -
  from createElementNodes_adds[of env mkArgs tag es h] obtain new where
    n: "createElementNodes env mkArgs tag es h = h @ new"
       "\<forall>e \<in> set new. (\<exists>a r. e = Rpc (UpsertNode a) r) \<or> (\<exists>t. e = ConsoleError t)" by blast
  have "proj progressOf new = []" by (rule proj_ignored) (use n(2) in auto)
  with n(1) show ?thesis by simp
qed

lemma progress_rpcCall [simp]: "proj progressOf (snd (rpcCall env c h)) = proj progressOf h"
  by (simp add: rpcCall_def Let_def)

lemma mkProgress_sel [simp]:
  "phase (mkProgress ph msg p) = ph" "progress (mkProgress ph msg p) = p" "message (mkProgress ph msg p) = msg"
  by (simp_all add: mkProgress_def)

lemma checkAbort_snd [simp]: "snd (checkAbort env v h) = h"
  by (simp add: checkAbort_def)

lemma checkAbort_cases:
  "checkAbort env v h = (Inl ''Aborted'', h) \<or> checkAbort env v h = (Inr v, h)"
  by (simp add: checkAbort_def)

lemma phase0_progress:
  "proj progressOf (snd (phase0 env inp v h)) = proj progressOf h @ [(CreatingNodes, 5)]"
  by (simp add: phase0_def Let_def)

lemma readExtraction_logged:
  "readExtraction side r = (res, logged) \<Longrightarrow> proj progressOf logged = []"
  by (auto simp: readExtraction_def split: sum.splits if_splits)

lemma phase1_progress:
  "(case phase1 env inp v h of
      (Inr v', h') \<Rightarrow> proj progressOf h' = proj progressOf h @ [(ExtractingD1, 15), (MergingConcepts, 35)]
    | (Inl e, h') \<Rightarrow> proj progressOf h' = proj progressOf h @ [(ExtractingD1, 15)]
                    \<or> proj progressOf h' = proj progressOf h @ [(ExtractingD1, 15), (MergingConcepts, 35)])"
  by (auto simp: phase1_def extractRequests_def Let_def checkAbort_def split: sum.splits prod.splits
           dest: readExtraction_logged)

lemma phase2_progress:
  "(case phase2 env inp v h of
      (Inr v', h') \<Rightarrow> proj progressOf h' = proj progressOf h @ [(BuildingGraph, 50)]
    | (Inl e, h') \<Rightarrow> proj progressOf h' = proj progressOf h
                    \<or> proj progressOf h' = proj progressOf h @ [(BuildingGraph, 50)])"
  by (auto simp: phase2_def mergeRequest_def Let_def checkAbort_def split: sum.splits prod.splits fetchResult.splits)

lemma phase25_progress:
  "(case phase25 env inp v h of
      (Inr v', h') \<Rightarrow> proj progressOf h' = proj progressOf h @ [(BuildingTesseract, 65)]
    | (Inl e, h') \<Rightarrow> proj progressOf h' = proj progressOf h
                    \<or> proj progressOf h' = proj progressOf h @ [(BuildingTesseract, 65)])"
proof -
  let ?g = "rpcReply env h GetNodes"
  let ?h1 = "h @ [Rpc GetNodes ?g]"
  let ?an = "rpc_data ?g"
  have p1: "proj progressOf ?h1 = proj progressOf h" by simp
  obtain r2 h2 where m: "createMergedNodes env ?an (mergedConcepts v) ?h1 = (r2, h2)"
    by (cases "createMergedNodes env ?an (mergedConcepts v) ?h1")
  from progress_createMergedNodes[OF m] p1 have p2: "proj progressOf h2 = proj progressOf h" by simp
  obtain r3 h3 where g: "createUnmergedNodes env ?an gapNodeArgs ''defines'' (unmergedD1Concepts v) h2 = (r3, h3)"
    by (cases "createUnmergedNodes env ?an gapNodeArgs ''defines'' (unmergedD1Concepts v) h2")
  from progress_createUnmergedNodes[OF g] p2 have p3: "proj progressOf h3 = proj progressOf h" by simp
  obtain r4 h4 where o: "createUnmergedNodes env ?an orphanNodeArgs ''implements'' (unmergedD2Concepts v) h3 = (r4, h4)"
    by (cases "createUnmergedNodes env ?an orphanNodeArgs ''implements'' (unmergedD2Concepts v) h3")
  from progress_createUnmergedNodes[OF o] p3 have p4: "proj progressOf h4 = proj progressOf h" by simp
  show ?thesis
    using m g o p2 p3 p4
    by (cases r2; cases r3; cases r4)
       (simp_all add: phase25_def Let_def rpcCall_def checkAbort_def)
qed

lemma phase3_progress:
  "(case phase3 env inp v h of
      (Inr v', h') \<Rightarrow> proj progressOf h' = proj progressOf h @ [(GeneratingVenn, 85)]
    | (Inl e, h') \<Rightarrow> proj progressOf h' = proj progressOf h
                    \<or> proj progressOf h' = proj progressOf h @ [(GeneratingVenn, 85)])"
  by (auto simp: phase3_def Let_def checkAbort_def split: sum.splits prod.splits fetchResult.splits)

lemma phase4_progress:
  "(case phase4 env inp v h of
      (Inr v', h') \<Rightarrow> proj progressOf h' = proj progressOf h @ [(Completed, 100)]
    | (Inl e, h') \<Rightarrow> proj progressOf h' = proj progressOf h)"
  by (auto simp: phase4_def Let_def split: sum.splits prod.splits fetchResult.splits)


lemma phase0_progress_Inr:
  "phase0 env inp v h = (r, h') \<Longrightarrow> proj progressOf h' = proj progressOf h @ [(CreatingNodes, 5)]"
  using phase0_progress[where env=env and inp=inp and v=v and h=h] by simp

lemma phase1_progress_Inr:
  "phase1 env inp v h = (Inr v', h')
   \<Longrightarrow> proj progressOf h' = proj progressOf h @ [(ExtractingD1, 15), (MergingConcepts, 35)]"
  using phase1_progress[where env=env and inp=inp and v=v and h=h] by simp

lemma phase1_progress_Inl:
  "phase1 env inp v h = (Inl e, h')
   \<Longrightarrow> proj progressOf h' = proj progressOf h @ [(ExtractingD1, 15)]
     \<or> proj progressOf h' = proj progressOf h @ [(ExtractingD1, 15), (MergingConcepts, 35)]"
  using phase1_progress[where env=env and inp=inp and v=v and h=h] by simp

lemma phase2_progress_Inr:
  "phase2 env inp v h = (Inr v', h') \<Longrightarrow> proj progressOf h' = proj progressOf h @ [(BuildingGraph, 50)]"
  using phase2_progress[where env=env and inp=inp and v=v and h=h] by simp

lemma phase2_progress_Inl:
  "phase2 env inp v h = (Inl e, h')
   \<Longrightarrow> proj progressOf h' = proj progressOf h
     \<or> proj progressOf h' = proj progressOf h @ [(BuildingGraph, 50)]"
  using phase2_progress[where env=env and inp=inp and v=v and h=h] by simp

lemma phase25_progress_Inr:
  "phase25 env inp v h = (Inr v', h') \<Longrightarrow> proj progressOf h' = proj progressOf h @ [(BuildingTesseract, 65)]"
  using phase25_progress[where env=env and inp=inp and v=v and h=h] by simp

lemma phase25_progress_Inl:
  "phase25 env inp v h = (Inl e, h')
   \<Longrightarrow> proj progressOf h' = proj progressOf h
     \<or> proj progressOf h' = proj progressOf h @ [(BuildingTesseract, 65)]"
  using phase25_progress[where env=env and inp=inp and v=v and h=h] by simp

lemma phase3_progress_Inr:
  "phase3 env inp v h = (Inr v', h') \<Longrightarrow> proj progressOf h' = proj progressOf h @ [(GeneratingVenn, 85)]"
  using phase3_progress[where env=env and inp=inp and v=v and h=h] by simp

lemma phase3_progress_Inl:
  "phase3 env inp v h = (Inl e, h')
   \<Longrightarrow> proj progressOf h' = proj progressOf h
     \<or> proj progressOf h' = proj progressOf h @ [(GeneratingVenn, 85)]"
  using phase3_progress[where env=env and inp=inp and v=v and h=h] by simp

lemma phase4_progress_Inr:
  "phase4 env inp v h = (Inr v', h') \<Longrightarrow> proj progressOf h' = proj progressOf h @ [(Completed, 100)]"
  using phase4_progress[where env=env and inp=inp and v=v and h=h] by simp

lemma phase4_progress_Inl:
  "phase4 env inp v h = (Inl e, h') \<Longrightarrow> proj progressOf h' = proj progressOf h"
  using phase4_progress[where env=env and inp=inp and v=v and h=h] by simp

lemmas phase_progress = phase0_progress_Inr phase1_progress_Inr phase1_progress_Inl
  phase2_progress_Inr phase2_progress_Inl phase25_progress_Inr phase25_progress_Inl
  phase3_progress_Inr
  phase3_progress_Inl phase4_progress_Inr phase4_progress_Inl

lemma tryBlock_progress:
  "(case tryBlock env inp of
      (Inr v, h) \<Rightarrow> proj progressOf h = normalProgress
    | (Inl e, h) \<Rightarrow> proj progressOf h \<in> set (map (\<lambda>k. take k normalProgress) [1, 2, 3, 4, 5, 6]))"
  unfolding tryBlock_def stages_def
  by (auto simp: normalProgress_def split: prod.splits sum.splits dest!: phase_progress)


lemma runStages_failure:
  "runStages ss v h = (Inl errMsg, h')
   \<Longrightarrow> \<exists>passed failing skipped v0 h0.
         ss = passed @ failing # skipped \<and> runStages passed v h = (Inr v0, h0)
         \<and> failing v0 h0 = (Inl errMsg, h')"
proof (induction ss arbitrary: v h)
  case Nil then show ?case by simp
next
  case (Cons s ss)
  obtain r h1 where s: "s v h = (r, h1)" by (cases "s v h")
  show ?case
  proof (cases r)
    case (Inl e)
    with s Cons.prems have "s v h = (Inl errMsg, h')" by simp
    then show ?thesis by (intro exI[of _ "[]"] exI[of _ s] exI[of _ ss] exI[of _ v] exI[of _ h]) simp
  next
    case (Inr v1)
    with s Cons.prems have "runStages ss v1 h1 = (Inl errMsg, h')" by simp
    from Cons.IH[OF this] obtain passed failing skipped v0 h0 where
      d: "ss = passed @ failing # skipped" "runStages passed v1 h1 = (Inr v0, h0)"
         "failing v0 h0 = (Inl errMsg, h')" by blast
    show ?thesis
      by (intro exI[of _ "s # passed"] exI[of _ failing] exI[of _ skipped] exI[of _ v0] exI[of _ h0])
         (use d s Inr in simp)
  qed
qed


lemma phase1_fails:
  assumes "fetchExtract env (extractRequests inp h) = Inr (d1Response, d2Response)"
    and "failedExtraction d1Response \<or> failedExtraction d2Response"
  shows "\<exists>msg. fst (phase1 env inp v h) = Inl msg"
  using assms
  by (auto simp: phase1_def Let_def readExtraction_def failedExtraction_def checkAbort_def
           split: sum.splits prod.splits if_splits)

lemma phase1_rejected:
  "fetchExtract env (extractRequests inp h) = Inl msg \<Longrightarrow> fst (phase1 env inp v h) = Inl msg"
  by (simp add: phase1_def Let_def)

lemma phase2_fails:
  assumes "fetchMerge env (mergeRequest v h) = Resolved mergeResponse"
    and "failedMerge mergeResponse"
  shows "\<exists>msg. fst (phase2 env inp v h) = Inl msg"
  using assms
  by (auto simp: phase2_def Let_def failedMerge_def checkAbort_def
           split: sum.splits prod.splits if_splits)

lemma phase2_rejected:
  "fetchMerge env (mergeRequest v h) = Rejected msg \<Longrightarrow> fst (phase2 env inp v h) = Inl msg"
  by (simp add: phase2_def Let_def)

lemma checkAbort_Inr: "checkAbort env v h = (Inr v', h') \<Longrightarrow> \<not> abortRequested env h'"
  by (auto simp: checkAbort_def split: if_splits)

lemma phase_abort:
  assumes "stage \<in> {phase0 env inp, phase1 env inp, phase2 env inp, phase25 env inp, phase3 env inp}"
    and "stage v h = (Inr v', h')"
  shows "\<not> abortRequested env h'"
proof -
  from assms(1) consider "stage = phase0 env inp" | "stage = phase1 env inp" | "stage = phase2 env inp"
    | "stage = phase25 env inp" | "stage = phase3 env inp" by blast
  then show ?thesis
  proof cases
    case 1 with assms(2) show ?thesis
      by (auto simp: phase0_def Let_def dest: checkAbort_Inr)
  next
    case 2 with assms(2) show ?thesis
      by (auto simp: phase1_def Let_def split: sum.splits prod.splits dest: checkAbort_Inr)
  next
    case 3 with assms(2) show ?thesis
      by (auto simp: phase2_def Let_def split: sum.splits prod.splits fetchResult.splits if_splits
               dest: checkAbort_Inr)
  next
    case 4 with assms(2) show ?thesis
      by (auto simp: phase25_def Let_def split: prod.splits sum.splits dest: checkAbort_Inr)
  next
    case 5 with assms(2) show ?thesis
      by (auto simp: phase3_def Let_def split: sum.splits fetchResult.splits if_splits
               dest: checkAbort_Inr)
  qed
qed

subsection \<open>What phase 0 writes\<close>

text \<open>
  Phase 0 upserts a node for every element, in order, and writes one console error for
  each upsert that came back with an error.
\<close>

lemma createElementNodes_writes:
  "\<exists>new. createElementNodes env mkArgs tag es h = h @ new
         \<and> proj upsertOf new = map mkArgs es
         \<and> length (proj consoleErrorOf new) = length (proj failedNodeWriteOf new)
         \<and> proj sessionStatusOf new = [] \<and> proj edgeOf new = []"
proof (induction es arbitrary: h)
  case Nil show ?case by simp
next
  case (Cons x es)
  let ?r = "rpcReply env h (UpsertNode (mkArgs x))"
  let ?h1 = "h @ [Rpc (UpsertNode (mkArgs x)) ?r]"
  let ?h2 = "if rpc_error ?r \<noteq> None then ?h1 @ [ConsoleError tag] else ?h1"
  from Cons[of ?h2] obtain new where
    n: "createElementNodes env mkArgs tag es ?h2 = ?h2 @ new"
       "proj upsertOf new = map mkArgs es"
       "length (proj consoleErrorOf new) = length (proj failedNodeWriteOf new)"
       "proj sessionStatusOf new = []" "proj edgeOf new = []" by blast
  show ?case
  proof (cases "rpc_error ?r \<noteq> None")
    case True
    show ?thesis
      apply (rule exI[of _ "Rpc (UpsertNode (mkArgs x)) ?r # ConsoleError tag # new"])
      using n True by (simp add: rpcCall_def Let_def)
  next
    case False
    show ?thesis
      apply (rule exI[of _ "Rpc (UpsertNode (mkArgs x)) ?r # new"])
      using n False by (simp add: rpcCall_def Let_def)
  qed
qed

lemma phase0_writes:
  "\<exists>new. snd (phase0 env inp v h) = h @ new
         \<and> proj upsertOf new = map d1NodeArgs (d1Elements inp) @ map d2NodeArgs (d2Elements inp)
         \<and> length (proj consoleErrorOf new) = length (proj failedNodeWriteOf new)
         \<and> proj sessionStatusOf new = [''running'']"
proof -
  let ?p = "SetProgress (mkProgress CreatingNodes
                     (''Creating '' @ showNat (length (d1Elements inp)) @ '' D1 and ''
                        @ showNat (length (d2Elements inp)) @ '' D2 nodes...'') 5)"
  let ?h1 = "h @ [?p]"
  from createElementNodes_writes[of env d1NodeArgs "''[Pipeline] Error creating D1 node:''" "d1Elements inp" ?h1]
  obtain n1 where n1: "createElementNodes env d1NodeArgs ''[Pipeline] Error creating D1 node:'' (d1Elements inp) ?h1 = ?h1 @ n1"
    "proj upsertOf n1 = map d1NodeArgs (d1Elements inp)"
    "length (proj consoleErrorOf n1) = length (proj failedNodeWriteOf n1)" "proj sessionStatusOf n1 = []" by blast
  from createElementNodes_writes[of env d2NodeArgs "''[Pipeline] Error creating D2 node:''" "d2Elements inp" "?h1 @ n1"]
  obtain n2 where n2: "createElementNodes env d2NodeArgs ''[Pipeline] Error creating D2 node:'' (d2Elements inp) (?h1 @ n1) = (?h1 @ n1) @ n2"
    "proj upsertOf n2 = map d2NodeArgs (d2Elements inp)"
    "length (proj consoleErrorOf n2) = length (proj failedNodeWriteOf n2)" "proj sessionStatusOf n2 = []" by blast
  let ?u = "Rpc (UpdateSession ''running'' (Some ''extracting_concepts''))
              (rpcReply env ((?h1 @ n1) @ n2) (UpdateSession ''running'' (Some ''extracting_concepts'')))"
  show ?thesis
    apply (rule exI[of _ "?p # n1 @ n2 @ [?u]"])
    using n1 n2 by (simp add: phase0_def Let_def rpcCall_def)
qed

subsection \<open>Evaluation of a run on the example environments\<close>

lemmas pipeline_eval = runPipeline_def tryBlock_def stages_def phase0_def phase1_def phase2_def
  phase25_def phase3_def phase4_def handleError_def checkAbort_def rpcCall_def
  extractRequests_def mergeRequest_def readExtraction_def initialVars_def
  conceptNodeId_def findNode_def orEmpty_def Let_def
  d1NodeArgs_def d2NodeArgs_def mergedNodeArgs_def gapNodeArgs_def orphanNodeArgs_def
  exampleInput_def emptyInput_def elementRows_def goodStore_def goodEnv_def abortedEnv_def
  failedD1Env_def failedMergeEnv_def rerunStore_def rerunEnv_def noEdgeStore_def noEdgeEnv_def
  noNodeStore_def noNodeEnv_def oneRowStore_def oneRowEnv_def
  categoryOrUnknown_def forMerge_def fromUnmergedD1_def fromUnmergedD2_def

subsection \<open>A fatal failure\<close>

text \<open>
  Claim C6. When the \<open>try\<close> block throws with a message, the run is the history up to
  the throw followed by the console error, the error state, the progress event with phase
  \<open>error\<close> and that message, the session update with status \<open>failed\<close>, and the end of
  the run: the last progress event is the error event with the message and the last
  session update is \<open>failed\<close>. The stages after the one that threw are skipped: the
  history at the throw is the history of the stages before it and of the stage that
  threw. A failed D1 or D2 extraction makes phase 1 throw, a failed merge makes phase 2
  throw, and an abort flag found set at the end of a stage makes that stage throw.
\<close>

theorem fatal_failure_ends_run:
  "(tryBlock env inp = (Inl errMsg, h)
    \<longrightarrow> runPipeline env inp
          = h @ [ConsoleError ''[Pipeline] Error:'', SetError (Some errMsg),
                 SetProgress (mkProgress PhaseError errMsg 0),
                 Rpc (UpdateSession ''failed'' None)
                     (rpcReply env
                        (h @ [ConsoleError ''[Pipeline] Error:'', SetError (Some errMsg),
                              SetProgress (mkProgress PhaseError errMsg 0)])
                        (UpdateSession ''failed'' None)),
                 SetIsRunning False]
        \<and> last (proj progressEventOf (runPipeline env inp)) = mkProgress PhaseError errMsg 0
        \<and> last (proj sessionStatusOf (runPipeline env inp)) = ''failed''
        \<and> (\<exists>passed failing skipped v0 h0.
              stages env inp = passed @ failing # skipped
              \<and> runStages passed initialVars [SetIsRunning True, SetError None] = (Inr v0, h0)
              \<and> failing v0 h0 = (Inl errMsg, h)))
   \<and> (fetchExtract env (extractRequests inp h1) = Inr (d1Response, d2Response)
        \<and> (failedExtraction d1Response \<or> failedExtraction d2Response)
      \<longrightarrow> (\<exists>msg. fst (phase1 env inp v1 h1) = Inl msg))
   \<and> (fetchMerge env (mergeRequest v2 h2) = Resolved mergeResponse \<and> failedMerge mergeResponse
      \<longrightarrow> (\<exists>msg. fst (phase2 env inp v2 h2) = Inl msg))
   \<and> (stage \<in> {phase0 env inp, phase1 env inp, phase2 env inp, phase25 env inp, phase3 env inp}
        \<and> abortRequested env (snd (stage v3 h3))
      \<longrightarrow> (\<exists>msg. fst (stage v3 h3) = Inl msg))"
proof (intro conjI impI)
  assume t: "tryBlock env inp = (Inl errMsg, h)"
  let ?h' = "h @ [ConsoleError ''[Pipeline] Error:'', SetError (Some errMsg),
                  SetProgress (mkProgress PhaseError errMsg 0)]"
  show r: "runPipeline env inp
          = h @ [ConsoleError ''[Pipeline] Error:'', SetError (Some errMsg),
                 SetProgress (mkProgress PhaseError errMsg 0),
                 Rpc (UpdateSession ''failed'' None) (rpcReply env ?h' (UpdateSession ''failed'' None)),
                 SetIsRunning False]"
    using t by (simp add: runPipeline_def handleError_def rpcCall_def Let_def)
  show "last (proj progressEventOf (runPipeline env inp)) = mkProgress PhaseError errMsg 0"
    unfolding r by simp
  show "last (proj sessionStatusOf (runPipeline env inp)) = ''failed''"
    unfolding r by simp
  from t show "\<exists>passed failing skipped v0 h0.
              stages env inp = passed @ failing # skipped
              \<and> runStages passed initialVars [SetIsRunning True, SetError None] = (Inr v0, h0)
              \<and> failing v0 h0 = (Inl errMsg, h)"
    unfolding tryBlock_def by (rule runStages_failure)
next
  assume "fetchExtract env (extractRequests inp h1) = Inr (d1Response, d2Response)
        \<and> (failedExtraction d1Response \<or> failedExtraction d2Response)"
  then show "\<exists>msg. fst (phase1 env inp v1 h1) = Inl msg"
    using phase1_fails by blast
next
  assume "fetchMerge env (mergeRequest v2 h2) = Resolved mergeResponse \<and> failedMerge mergeResponse"
  then show "\<exists>msg. fst (phase2 env inp v2 h2) = Inl msg"
    using phase2_fails by blast
next
  assume a: "stage \<in> {phase0 env inp, phase1 env inp, phase2 env inp, phase25 env inp, phase3 env inp}
        \<and> abortRequested env (snd (stage v3 h3))"
  show "\<exists>msg. fst (stage v3 h3) = Inl msg"
  proof (cases "fst (stage v3 h3)")
    case (Inl msg) then show ?thesis by blast
  next
    case (Inr v')
    then have "stage v3 h3 = (Inr v', snd (stage v3 h3))" by (metis prod.collapse)
    with a phase_abort[of stage env inp v3 h3 v' "snd (stage v3 h3)"] show ?thesis by blast
  qed
qed

text \<open>
  Three runs: a D1 extraction answered with status 500, a merge answered with status 500,
  and a run aborted before the extraction. Each ends with the error event that carries
  the message and with the session update \<open>failed\<close>.
\<close>

theorem fatal_failure_ends_run_witness:
  "fst (tryBlock failedD1Env exampleInput) = Inl ''D1 concept extraction failed: 500''
   \<and> last (proj progressEventOf (runPipeline failedD1Env exampleInput))
       = mkProgress PhaseError ''D1 concept extraction failed: 500'' 0
   \<and> last (proj sessionStatusOf (runPipeline failedD1Env exampleInput)) = ''failed''
   \<and> fst (tryBlock failedMergeEnv exampleInput) = Inl ''Merge concepts failed: 500''
   \<and> last (proj progressEventOf (runPipeline failedMergeEnv exampleInput))
       = mkProgress PhaseError ''Merge concepts failed: 500'' 0
   \<and> last (proj sessionStatusOf (runPipeline failedMergeEnv exampleInput)) = ''failed''
   \<and> fst (tryBlock abortedEnv exampleInput) = Inl ''Aborted''
   \<and> last (proj progressEventOf (runPipeline abortedEnv exampleInput))
       = mkProgress PhaseError ''Aborted'' 0
   \<and> last (proj sessionStatusOf (runPipeline abortedEnv exampleInput)) = ''failed''"
proof -
  have t1: "tryBlock failedD1Env exampleInput
              = (Inl ''D1 concept extraction failed: 500'', snd (tryBlock failedD1Env exampleInput))"
    by (simp add: pipeline_eval showNat.simps digitChar_def)
  have t2: "tryBlock failedMergeEnv exampleInput
              = (Inl ''Merge concepts failed: 500'', snd (tryBlock failedMergeEnv exampleInput))"
    by (simp add: pipeline_eval showNat.simps digitChar_def)
  have t3: "tryBlock abortedEnv exampleInput
              = (Inl ''Aborted'', snd (tryBlock abortedEnv exampleInput))"
    by (simp add: pipeline_eval)
  have x: "fetchExtract failedD1Env (extractRequests exampleInput [])
             = Inr (\<lparr> resp_ok = False, resp_status = 500,
                      resp_json = Inr \<lparr> er_success = False, er_error = Some ''Gemini API error: 503'',
                                        er_concepts = None \<rparr> \<rparr>,
                    \<lparr> resp_ok = True, resp_status = 200,
                      resp_json = Inr \<lparr> er_success = True, er_error = None, er_concepts = Some [] \<rparr> \<rparr>)
           \<and> (failedExtraction \<lparr> resp_ok = False, resp_status = 500,
                      resp_json = Inr \<lparr> er_success = False, er_error = Some ''Gemini API error: 503'',
                                        er_concepts = None \<rparr> \<rparr>
              \<or> failedExtraction \<lparr> resp_ok = True, resp_status = 200,
                      resp_json = Inr \<lparr> er_success = True, er_error = None, er_concepts = Some [] \<rparr> \<rparr>)"
    by (simp add: failedD1Env_def goodEnv_def failedExtraction_def)
  have m: "fetchMerge failedMergeEnv (mergeRequest initialVars [])
             = Resolved \<lparr> resp_ok = False, resp_status = 500,
                 resp_json = Inr \<lparr> mr_success = False,
                                   mr_error = Some ''Could not parse JSON from LLM response'',
                                   mr_mergedConcepts = None, mr_unmergedD1Concepts = None,
                                   mr_unmergedD2Concepts = None \<rparr> \<rparr>
           \<and> failedMerge \<lparr> resp_ok = False, resp_status = 500,
                 resp_json = Inr \<lparr> mr_success = False,
                                   mr_error = Some ''Could not parse JSON from LLM response'',
                                   mr_mergedConcepts = None, mr_unmergedD1Concepts = None,
                                   mr_unmergedD2Concepts = None \<rparr> \<rparr>"
    by (simp add: failedMergeEnv_def goodEnv_def failedMerge_def)
  have a: "phase0 abortedEnv exampleInput
             \<in> {phase0 abortedEnv exampleInput, phase1 abortedEnv exampleInput,
                 phase2 abortedEnv exampleInput, phase25 abortedEnv exampleInput,
                 phase3 abortedEnv exampleInput}
           \<and> abortRequested abortedEnv (snd (phase0 abortedEnv exampleInput initialVars []))"
    by (simp add: abortedEnv_def)
  note T1 = fatal_failure_ends_run
    [of failedD1Env exampleInput "''D1 concept extraction failed: 500''"
        "snd (tryBlock failedD1Env exampleInput)" "[]"
        "\<lparr> resp_ok = False, resp_status = 500,
           resp_json = Inr \<lparr> er_success = False, er_error = Some ''Gemini API error: 503'',
                             er_concepts = None \<rparr> \<rparr>"
        "\<lparr> resp_ok = True, resp_status = 200,
           resp_json = Inr \<lparr> er_success = True, er_error = None, er_concepts = Some [] \<rparr> \<rparr>"]
  note T2 = fatal_failure_ends_run
    [of failedMergeEnv exampleInput "''Merge concepts failed: 500''"
        "snd (tryBlock failedMergeEnv exampleInput)" _ _ _ _ initialVars "[]"
        "\<lparr> resp_ok = False, resp_status = 500,
           resp_json = Inr \<lparr> mr_success = False,
                             mr_error = Some ''Could not parse JSON from LLM response'',
                             mr_mergedConcepts = None, mr_unmergedD1Concepts = None,
                             mr_unmergedD2Concepts = None \<rparr> \<rparr>"]
  note T3 = fatal_failure_ends_run
    [of abortedEnv exampleInput "''Aborted''" "snd (tryBlock abortedEnv exampleInput)"
        _ _ _ _ _ _ _ "phase0 abortedEnv exampleInput" initialVars "[]"]
  from T1 t1 x have c1:
    "last (proj progressEventOf (runPipeline failedD1Env exampleInput))
       = mkProgress PhaseError ''D1 concept extraction failed: 500'' 0
     \<and> last (proj sessionStatusOf (runPipeline failedD1Env exampleInput)) = ''failed''"
    by blast
  from T2 t2 m have c2:
    "last (proj progressEventOf (runPipeline failedMergeEnv exampleInput))
       = mkProgress PhaseError ''Merge concepts failed: 500'' 0
     \<and> last (proj sessionStatusOf (runPipeline failedMergeEnv exampleInput)) = ''failed''"
    by blast
  from T3 t3 a have c3:
    "last (proj progressEventOf (runPipeline abortedEnv exampleInput))
       = mkProgress PhaseError ''Aborted'' 0
     \<and> last (proj sessionStatusOf (runPipeline abortedEnv exampleInput)) = ''failed''"
    by blast
  from t1 have f1: "fst (tryBlock failedD1Env exampleInput) = Inl ''D1 concept extraction failed: 500''"
    by (metis fst_conv)
  from t2 have f2: "fst (tryBlock failedMergeEnv exampleInput) = Inl ''Merge concepts failed: 500''"
    by (metis fst_conv)
  from t3 have f3: "fst (tryBlock abortedEnv exampleInput) = Inl ''Aborted''"
    by (metis fst_conv)
  from c1 c2 c3 f1 f2 f3 show ?thesis by blast
qed

subsection \<open>The progress events\<close>

text \<open>
  Claim C9, as amended. The claim says that the percentage never goes down over the
  events of a run. The \<open>catch\<close> block reports the error with the percentage 0
  (\<open>setProgress({ phase: "error", message: errMsg, progress: 0 })\<close>), after events with
  5 or more (\<open>progress_drops_on_error\<close> below). What holds: a run without a fatal
  failure reports the phases creating_nodes, extracting_d1, merging_concepts,
  building_graph, building_tesseract, generating_venn and completed with the percentages
  5, 15, 35, 50, 65, 85 and 100; a run with a fatal failure reports the first \<open>k\<close> of
  the first six of these, for some \<open>k\<close> from 1 to 6, with increasing percentages, and
  then the error event with the percentage 0.
\<close>

theorem progress_of_a_run:
  "(case tryBlock env inp of
      (Inr v, h) \<Rightarrow>
        proj progressOf (runPipeline env inp) = normalProgress
        \<and> sorted (map snd (proj progressOf (runPipeline env inp)))
    | (Inl errMsg, h) \<Rightarrow>
        (\<exists>k. 1 \<le> k \<and> k \<le> 6 \<and> proj progressOf h = take k normalProgress)
        \<and> sorted (map snd (proj progressOf h))
        \<and> proj progressOf (runPipeline env inp) = proj progressOf h @ [(PhaseError, 0)])"
proof (cases "tryBlock env inp")
  case (Pair r h)
  show ?thesis
  proof (cases r)
    case (Inr v)
    with Pair tryBlock_progress[of env inp] have "proj progressOf h = normalProgress" by simp
    with Pair Inr show ?thesis by (simp add: runPipeline_def normalProgress_def)
  next
    case (Inl errMsg)
    with Pair tryBlock_progress[of env inp]
    have m: "proj progressOf h \<in> set (map (\<lambda>k. take k normalProgress) [1, 2, 3, 4, 5, 6])" by simp
    then obtain k where k: "k \<in> set [1, 2, 3, 4, 5, 6::nat]" "proj progressOf h = take k normalProgress"
      by auto
    then have k16: "1 \<le> k \<and> k \<le> 6" by auto
    have s: "sorted (map snd (proj progressOf h))"
      using m by (auto simp: normalProgress_def)
    have e: "proj progressOf (runPipeline env inp) = proj progressOf h @ [(PhaseError, 0)]"
      using Pair Inl by (simp add: runPipeline_def handleError_def rpcCall_def Let_def)
    from k k16 s e Pair Inl show ?thesis by auto
  qed
qed

text \<open>
  The run of the example goes through the seven events; the run whose D1 extraction
  fails has the first two of them and then the error event.
\<close>

theorem progress_of_a_run_witness:
  "\<not> isl (fst (tryBlock goodEnv exampleInput))
   \<and> proj progressOf (runPipeline goodEnv exampleInput) = normalProgress
   \<and> sorted (map snd (proj progressOf (runPipeline goodEnv exampleInput)))
   \<and> isl (fst (tryBlock failedD1Env exampleInput))
   \<and> proj progressOf (runPipeline failedD1Env exampleInput)
       = proj progressOf (snd (tryBlock failedD1Env exampleInput)) @ [(PhaseError, 0)]"
proof -
  have g: "\<not> isl (fst (tryBlock goodEnv exampleInput))"
    by (simp add: pipeline_eval)
  have f: "isl (fst (tryBlock failedD1Env exampleInput))"
    by (simp add: pipeline_eval)
  from progress_of_a_run [of goodEnv exampleInput] g
  have c1: "proj progressOf (runPipeline goodEnv exampleInput) = normalProgress
            \<and> sorted (map snd (proj progressOf (runPipeline goodEnv exampleInput)))"
    by (cases "tryBlock goodEnv exampleInput"; cases "fst (tryBlock goodEnv exampleInput)") auto
  from progress_of_a_run [of failedD1Env exampleInput] f
  have c2: "proj progressOf (runPipeline failedD1Env exampleInput)
       = proj progressOf (snd (tryBlock failedD1Env exampleInput)) @ [(PhaseError, 0)]"
    by (cases "tryBlock failedD1Env exampleInput"; cases "fst (tryBlock failedD1Env exampleInput)") auto
  from g f c1 c2 show ?thesis by blast
qed

text \<open>
  The claim as stated fails: when the D1 extraction fails the percentages of the events
  are 5, 15 and then 0.
\<close>

theorem progress_drops_on_error:
  "map snd (proj progressOf (runPipeline failedD1Env exampleInput)) = [5, 15, 0]
   \<and> \<not> sorted (map snd (proj progressOf (runPipeline failedD1Env exampleInput)))"
  by (simp add: pipeline_eval)

subsection \<open>A node list that is no array\<close>

text \<open>
  When the store answers the node list with something that is neither \<open>null\<close> nor an
  array, the first lookup of an element node throws: the run ends as a fatal failure,
  after the upsert of the first concept node and before any edge.
\<close>

lemma run_fails_when_node_list_is_no_array:
  "fst (tryBlock oneRowEnv exampleInput) = Inl ''allNodes?.find is not a function''
   \<and> proj edgeOf (runPipeline oneRowEnv exampleInput) = []
   \<and> proj sessionStatusOf (runPipeline oneRowEnv exampleInput) = [''running'', ''failed'']
   \<and> map snd (proj progressOf (runPipeline oneRowEnv exampleInput)) = [5, 15, 35, 50, 0]"
  by (simp add: pipeline_eval)

subsection \<open>The edges of the graph\<close>

text \<open>
  Claim C7 says that the source of every edge is an element node. The code says the same
  of itself: the four loops that insert the edges are headed \<open>Create edges from D1
  elements to concept\<close>, \<open>Create edges from D2 elements to concept\<close>, \<open>Create edges from
  D1 elements to gap concept\<close> and \<open>Create edges from D2 elements to orphan concept\<close>.
  But the source of an edge is looked up in the node list of the session by the element
  id alone (\<open>allNodes?.find((n) => n.source_element_ids?.includes(id))\<close>), with no test of
  the type of the node, and a concept node lists the ids of its elements too. On a session
  that already holds the concept node of an earlier run, listed before the element nodes,
  the first node that lists \<open>e1\<close> is that concept node, and so for \<open>x1\<close>: both edges of
  the run start at the concept node, and as the store returns the same node for the upsert
  of the concept they end there too. On a fresh session the lookup finds the element
  nodes. The theorem evaluates both runs.
\<close>

theorem edge_from_a_concept_node:
  "proj edgeOf (runPipeline rerunEnv exampleInput)
     = [\<lparr> p_source_node_id = ''n:Authentication'', p_target_node_id = ''n:Authentication'',
           p_edge_type = ''defines'', p_edge_label = ''defines'' \<rparr>,
        \<lparr> p_source_node_id = ''n:Authentication'', p_target_node_id = ''n:Authentication'',
           p_edge_type = ''implements'', p_edge_label = ''implements'' \<rparr>]
   \<and> findNode (rpc_data (rerunStore [] GetNodes)) ''e1''
       = Inr (Some \<lparr> node_id = ''n:Authentication'', node_type = ''concept'',
                     source_element_ids = Some [''e1'', ''x1''] \<rparr>)
   \<and> findNode (rpc_data (rerunStore [] GetNodes)) ''x1''
       = Inr (Some \<lparr> node_id = ''n:Authentication'', node_type = ''concept'',
                     source_element_ids = Some [''e1'', ''x1''] \<rparr>)
   \<and> \<not> isElementNode \<lparr> node_id = ''n:Authentication'', node_type = ''concept'',
                         source_element_ids = Some [''e1'', ''x1''] \<rparr>
   \<and> proj sessionStatusOf (runPipeline rerunEnv exampleInput) = [''running'', ''completed'']
   \<and> proj edgeOf (runPipeline goodEnv exampleInput)
     = [\<lparr> p_source_node_id = ''n:Login'', p_target_node_id = ''n:Authentication'',
           p_edge_type = ''defines'', p_edge_label = ''defines'' \<rparr>,
        \<lparr> p_source_node_id = ''n:auth.ts'', p_target_node_id = ''n:Authentication'',
           p_edge_type = ''implements'', p_edge_label = ''implements'' \<rparr>]"
  by (simp add: pipeline_eval isElementNode_def)

subsection \<open>Writes to the graph that fail\<close>

text \<open>
  Claim C8 says that a failed write of a node or of an edge is logged and skipped. The
  loops over the elements do so: they read the error of the upsert
  (\<open>const { error: nodeError } = ...\<close>) and write it to the console. The loops over the
  concepts read only the data of the upsert (\<open>const { data: conceptNode } = ...\<close>), and
  the result of an edge insertion is not read at all: a failed write of a concept node or
  of an edge is skipped and leaves no trace. With a store that refuses every edge, the two
  insertions of the example come back with an error, nothing is written to the console
  and the session is completed. With a store that refuses every node, the three upserts
  come back with an error, the two of the element nodes are written to the console and
  the one of the concept node is not. The theorem evaluates both runs.
\<close>

theorem failed_edge_writes_not_logged:
  "proj failedEdgeWriteOf (runPipeline noEdgeEnv exampleInput)
     = [InsertEdge \<lparr> p_source_node_id = ''n:Login'', p_target_node_id = ''n:Authentication'',
                     p_edge_type = ''defines'', p_edge_label = ''defines'' \<rparr>,
        InsertEdge \<lparr> p_source_node_id = ''n:auth.ts'', p_target_node_id = ''n:Authentication'',
                     p_edge_type = ''implements'', p_edge_label = ''implements'' \<rparr>]
   \<and> proj consoleErrorOf (runPipeline noEdgeEnv exampleInput) = []
   \<and> proj sessionStatusOf (runPipeline noEdgeEnv exampleInput) = [''running'', ''completed'']
   \<and> map p_node_type (proj upsertOf (runPipeline noNodeEnv exampleInput))
       = [''d1_element'', ''d2_element'', ''concept'']
   \<and> length (proj failedNodeWriteOf (runPipeline noNodeEnv exampleInput)) = 3
   \<and> proj consoleErrorOf (runPipeline noNodeEnv exampleInput)
       = [''[Pipeline] Error creating D1 node:'', ''[Pipeline] Error creating D2 node:'']
   \<and> proj sessionStatusOf (runPipeline noNodeEnv exampleInput) = [''running'', ''completed'']"
  by (simp add: pipeline_eval)
end

